theory Spec2Isabelle
  imports Complex_Main "HOL-Library.AList" "HOL-Library.Option_ord" "HOL-Library.Multiset"
begin

section \<open>Inventory manager: model of \<open>inventario_sqlite.py\<close>\<close>

text \<open>
  The development embeds the classes \<open>Producto\<close> and \<open>Inventario\<close> of
  \<open>src/inventario_tienda/inventario_sqlite.py\<close>.

  \<^item> A Python \<open>str\<close> is a \<open>string\<close>; a \<open>char\<close> stands for the code point of the same
    number (U+0000 to U+00FF).
  \<^item> A Python \<open>int\<close> is an \<open>int\<close>; the price, a Python \<open>float\<close>, is a \<open>real\<close>: the code
    only compares it with zero and stores it, and does no arithmetic on it. The values
    \<open>nan\<close> and \<open>inf\<close> of a \<open>float\<close> are outside the model.
  \<^item> A Python \<open>dict\<close> is an association list in insertion order: assignment to a present
    key keeps the key's position, assignment to a new key appends, \<open>pop\<close> removes.
  \<^item> A Python \<open>set\<close> of ids is an \<open>int set\<close>. Its iteration order is not specified by the
    language; the model iterates in ascending order and every statement about a list built
    from such an iteration is made on the elements of that list.
  \<^item> An exception is a value \<open>Inl e\<close>. Every operation of \<open>Inventario\<close> returns its
    outcome together with the state of the object after the call, so that what an
    exception leaves behind is part of the model.
  \<^item> The \<open>Producto\<close> objects are referenced from \<open>_productos_por_id\<close> only, each under its
    own key, so mutation of the object found under a key is an update of that entry.
\<close>

subsection \<open>Strings\<close>

definition isspace :: "char \<Rightarrow> bool" where
  \<comment> \<open>\<open>str.isspace\<close> on one code point below 256\<close>
  "isspace c =
     (let n = (of_char c :: nat)
      in (9 \<le> n \<and> n \<le> 13) \<or> (28 \<le> n \<and> n \<le> 32) \<or> n = 133 \<or> n = 160)"

definition strip :: "string \<Rightarrow> string" where
  \<comment> \<open>\<open>s.strip()\<close>\<close>
  "strip s = rev (dropWhile isspace (rev (dropWhile isspace s)))"

definition lower_char :: "char \<Rightarrow> char" where
  "lower_char c =
     (let n = (of_char c :: nat)
      in if (65 \<le> n \<and> n \<le> 90) \<or> (192 \<le> n \<and> n \<le> 222 \<and> n \<noteq> 215)
         then char_of (n + 32) else c)"

definition lower :: "string \<Rightarrow> string" where
  \<comment> \<open>\<open>s.lower()\<close>\<close>
  "lower s = map lower_char s"

fun contiene :: "string \<Rightarrow> string \<Rightarrow> bool" where
  \<comment> \<open>\<open>q in s\<close> on strings: \<open>q\<close> occurs in \<open>s\<close> as a contiguous block\<close>
  "contiene q [] = (q = [])"
| "contiene q (c # cs) = (q = take (length q) (c # cs) \<or> contiene q cs)"

subsection \<open>The model class \<open>Producto\<close>\<close>

datatype error = ValueError | KeyError | OverflowError | IntegrityError | OperationalError

record Producto =
  id' :: "int option"
  nombre :: string
  cantidad :: int
  precio :: real

definition set_cantidad :: "int \<Rightarrow> Producto \<Rightarrow> error + Producto" where
  "set_cantidad nueva_cantidad p =
     (if nueva_cantidad < 0 then Inl ValueError
      else Inr (p\<lparr>cantidad := nueva_cantidad\<rparr>))"

definition set_precio :: "real \<Rightarrow> Producto \<Rightarrow> error + Producto" where
  "set_precio nuevo_precio p =
     (if nuevo_precio < 0 then Inl ValueError
      else Inr (p\<lparr>precio := nuevo_precio\<rparr>))"

definition to_tuple :: "Producto \<Rightarrow> int option \<times> string \<times> int \<times> real" where
  "to_tuple p = (id' p, nombre p, cantidad p, precio p)"

subsection \<open>The table \<open>productos\<close>\<close>

text \<open>
  The connection is the table \<open>productos\<close> (rows \<open>(id, (nombre, cantidad, precio))\<close> in
  rowid order of insertion) and the counter that \<open>AUTOINCREMENT\<close> keeps in
  \<open>sqlite_sequence\<close>. The statements the class executes are modelled with the failures
  the schema and the binding of parameters give them: an integer parameter outside 64 bits
  raises \<open>OverflowError\<close>, a row that violates a \<open>CHECK\<close> raises \<open>IntegrityError\<close>, and an
  exhausted rowid raises \<open>OperationalError\<close>. A statement that fails changes nothing.
\<close>

type_synonym campos = "string \<times> int \<times> real"

record Store =
  filas :: "(int \<times> campos) list"
  seq :: int

definition sqlite_integer :: "int \<Rightarrow> bool" where
  "sqlite_integer n = (- (2 ^ 63) \<le> n \<and> n < 2 ^ 63)"

definition sql_insert :: "string \<Rightarrow> int \<Rightarrow> real \<Rightarrow> Store \<Rightarrow> error + (int \<times> Store)" where
  \<comment> \<open>\<open>INSERT INTO productos (nombre, cantidad, precio) VALUES (?, ?, ?)\<close> and \<open>lastrowid\<close>\<close>
  "sql_insert nom cant prec db =
     (if \<not> sqlite_integer cant then Inl OverflowError
      else if cant < 0 \<or> prec < 0 then Inl IntegrityError
      else
        let nuevo_id = fold max (map fst (filas db)) (seq db) + 1
        in if \<not> sqlite_integer nuevo_id then Inl OperationalError
           else Inr (nuevo_id,
                  db\<lparr>filas := filas db @ [(nuevo_id, (nom, cant, prec))], seq := nuevo_id\<rparr>))"

definition sql_set :: "int \<Rightarrow> (campos \<Rightarrow> campos) \<Rightarrow> Store \<Rightarrow> Store" where
  \<comment> \<open>\<open>UPDATE productos SET ... WHERE id = ?\<close> on the rows\<close>
  "sql_set i f db =
     db\<lparr>filas := map (\<lambda>(j, r). if j = i then (j, f r) else (j, r)) (filas db)\<rparr>"

definition sql_update_cantidad :: "int \<Rightarrow> int \<Rightarrow> Store \<Rightarrow> error + Store" where
  \<comment> \<open>\<open>UPDATE productos SET cantidad = ? WHERE id = ?\<close>\<close>
  "sql_update_cantidad cant i db =
     (if \<not> sqlite_integer cant \<or> \<not> sqlite_integer i then Inl OverflowError
      else if cant < 0 \<and> i \<in> fst ` set (filas db) then Inl IntegrityError
      else Inr (sql_set i (\<lambda>(n, c, pr). (n, cant, pr)) db))"

definition sql_update_precio :: "real \<Rightarrow> int \<Rightarrow> Store \<Rightarrow> error + Store" where
  \<comment> \<open>\<open>UPDATE productos SET precio = ? WHERE id = ?\<close>\<close>
  "sql_update_precio prec i db =
     (if \<not> sqlite_integer i then Inl OverflowError
      else if prec < 0 \<and> i \<in> fst ` set (filas db) then Inl IntegrityError
      else Inr (sql_set i (\<lambda>(n, c, pr). (n, c, prec)) db))"

definition sql_update_nombre :: "string \<Rightarrow> int \<Rightarrow> Store \<Rightarrow> error + Store" where
  \<comment> \<open>\<open>UPDATE productos SET nombre = ? WHERE id = ?\<close>\<close>
  "sql_update_nombre nom i db =
     (if \<not> sqlite_integer i then Inl OverflowError
      else Inr (sql_set i (\<lambda>(n, c, pr). (nom, c, pr)) db))"

definition sql_delete :: "int \<Rightarrow> Store \<Rightarrow> error + Store" where
  \<comment> \<open>\<open>DELETE FROM productos WHERE id = ?\<close>\<close>
  "sql_delete i db =
     (if \<not> sqlite_integer i then Inl OverflowError
      else Inr (db\<lparr>filas := AList.delete i (filas db)\<rparr>))"

definition store_ok :: "Store \<Rightarrow> bool" where
  \<comment> \<open>what the column \<open>id INTEGER PRIMARY KEY\<close> guarantees of any table\<close>
  "store_ok db =
     (distinct (map fst (filas db)) \<and> (\<forall>i \<in> set (map fst (filas db)). sqlite_integer i))"

subsection \<open>The repository class \<open>Inventario\<close>\<close>

record Inventario =
  conn :: Store
  productos_por_id :: "(int \<times> Producto) list"
  nombre_idx :: "(string \<times> int set) list"

type_synonym 'a resultado = "(error + 'a) \<times> Inventario"

definition normaliza :: "string \<Rightarrow> string" where
  "normaliza s = lower (strip s)"

definition descartar :: "string \<Rightarrow> int \<Rightarrow> (string \<times> int set) list \<Rightarrow> (string \<times> int set) list" where
  \<comment> \<open>the block shared by \<open>_desindexar\<close> and \<open>_reindexar_nombre\<close>: discard the id from the
      set under the key and pop the key when the set is left empty\<close>
  "descartar clave i idx =
     (case map_of idx clave of
        None \<Rightarrow> idx
      | Some s \<Rightarrow>
          if s - {i} = {} then AList.delete clave idx
          else AList.update clave (s - {i}) idx)"

definition indexar :: "Producto \<Rightarrow> Inventario \<Rightarrow> Inventario" where
  "indexar p self =
     (case id' p of
        None \<Rightarrow> self
      | Some i \<Rightarrow>
          let por_id = AList.update i p (productos_por_id self);
              clave = normaliza (nombre p);
              idx = (case map_of (nombre_idx self) clave of
                       None \<Rightarrow> AList.update clave {} (nombre_idx self)
                     | Some s \<Rightarrow> nombre_idx self);
              idx' = (case map_of idx clave of
                        None \<Rightarrow> idx
                      | Some s \<Rightarrow> AList.update clave (insert i s) idx)
          in self\<lparr>productos_por_id := por_id, nombre_idx := idx'\<rparr>)"

definition desindexar :: "Producto \<Rightarrow> Inventario \<Rightarrow> Inventario" where
  "desindexar p self =
     (case id' p of
        None \<Rightarrow> self
      | Some i \<Rightarrow>
          self\<lparr>productos_por_id := AList.delete i (productos_por_id self),
              nombre_idx := descartar (normaliza (nombre p)) i (nombre_idx self)\<rparr>)"

definition reindexar_nombre :: "Producto \<Rightarrow> string \<Rightarrow> Inventario \<Rightarrow> Inventario" where
  "reindexar_nombre p nombre_anterior self =
     (case id' p of
        None \<Rightarrow> self
      | Some i \<Rightarrow>
          indexar p (self\<lparr>nombre_idx := descartar (normaliza nombre_anterior) i (nombre_idx self)\<rparr>))"

definition cargar_desde_db :: "Inventario \<Rightarrow> Inventario" where
  "cargar_desde_db self =
     fold (\<lambda>(i, n, c, pr). indexar \<lparr>id' = Some i, nombre = n, cantidad = c, precio = pr\<rparr>)
       (filas (conn self))
       (self\<lparr>productos_por_id := [], nombre_idx := []\<rparr>)"

definition Inventario_init :: "Store \<Rightarrow> Inventario" where
  \<comment> \<open>\<open>__init__\<close> on a connection whose table exists or has just been created\<close>
  "Inventario_init db = cargar_desde_db \<lparr>conn = db, productos_por_id = [], nombre_idx = []\<rparr>"

definition anadir_producto :: "string \<Rightarrow> int \<Rightarrow> real \<Rightarrow> Inventario \<Rightarrow> Producto resultado" where
  "anadir_producto nom cant prec self =
     (if cant < 0 \<or> prec < 0 then (Inl ValueError, self)
      else
        case sql_insert (strip nom) cant prec (conn self) of
          Inl e \<Rightarrow> (Inl e, self)
        | Inr (nuevo_id, db) \<Rightarrow>
            let p = \<lparr>id' = Some nuevo_id, nombre = strip nom, cantidad = cant, precio = prec\<rparr>
            in (Inr p, indexar p (self\<lparr>conn := db\<rparr>)))"

definition eliminar_producto :: "int \<Rightarrow> Inventario \<Rightarrow> bool resultado" where
  "eliminar_producto prod_id self =
     (case map_of (productos_por_id self) prod_id of
        None \<Rightarrow> (Inr False, self)
      | Some p \<Rightarrow>
          (case sql_delete prod_id (conn self) of
             Inl e \<Rightarrow> (Inl e, self)
           | Inr db \<Rightarrow> (Inr True, desindexar p (self\<lparr>conn := db\<rparr>))))"

definition actualizar_cantidad :: "int \<Rightarrow> int \<Rightarrow> Inventario \<Rightarrow> bool resultado" where
  "actualizar_cantidad prod_id nueva_cantidad self =
     (if nueva_cantidad < 0 then (Inl ValueError, self)
      else
        case map_of (productos_por_id self) prod_id of
          None \<Rightarrow> (Inr False, self)
        | Some p \<Rightarrow>
            (case sql_update_cantidad nueva_cantidad prod_id (conn self) of
               Inl e \<Rightarrow> (Inl e, self)
             | Inr db \<Rightarrow>
                 (case set_cantidad nueva_cantidad p of
                    Inl e \<Rightarrow> (Inl e, self\<lparr>conn := db\<rparr>)
                  | Inr p' \<Rightarrow>
                      (Inr True,
                       self\<lparr>conn := db,
                           productos_por_id := AList.update prod_id p' (productos_por_id self)\<rparr>))))"

definition actualizar_precio :: "int \<Rightarrow> real \<Rightarrow> Inventario \<Rightarrow> bool resultado" where
  "actualizar_precio prod_id nuevo_precio self =
     (if nuevo_precio < 0 then (Inl ValueError, self)
      else
        case map_of (productos_por_id self) prod_id of
          None \<Rightarrow> (Inr False, self)
        | Some p \<Rightarrow>
            (case sql_update_precio nuevo_precio prod_id (conn self) of
               Inl e \<Rightarrow> (Inl e, self)
             | Inr db \<Rightarrow>
                 (case set_precio nuevo_precio p of
                    Inl e \<Rightarrow> (Inl e, self\<lparr>conn := db\<rparr>)
                  | Inr p' \<Rightarrow>
                      (Inr True,
                       self\<lparr>conn := db,
                           productos_por_id := AList.update prod_id p' (productos_por_id self)\<rparr>))))"

definition actualizar_nombre :: "int \<Rightarrow> string \<Rightarrow> Inventario \<Rightarrow> bool resultado" where
  "actualizar_nombre prod_id nuevo_nombre self =
     (case map_of (productos_por_id self) prod_id of
        None \<Rightarrow> (Inr False, self)
      | Some p \<Rightarrow>
          let nombre_anterior = nombre p
          in (case sql_update_nombre (strip nuevo_nombre) prod_id (conn self) of
                Inl e \<Rightarrow> (Inl e, self)
              | Inr db \<Rightarrow>
                  let p' = p\<lparr>nombre := strip nuevo_nombre\<rparr>
                  in (Inr True,
                      reindexar_nombre p' nombre_anterior
                        (self\<lparr>conn := db,
                             productos_por_id := AList.update prod_id p' (productos_por_id self)\<rparr>))))"

definition obtener_por_id :: "int \<Rightarrow> Inventario \<Rightarrow> Producto option" where
  "obtener_por_id prod_id self = map_of (productos_por_id self) prod_id"

fun por_ids :: "(int \<times> Producto) list \<Rightarrow> int list \<Rightarrow> error + Producto list" where
  \<comment> \<open>the first loop of \<open>buscar_por_nombre\<close>: \<open>self._productos_por_id[prod_id]\<close> raises
      \<open>KeyError\<close> on an id that is not a key\<close>
  "por_ids por_id [] = Inr []"
| "por_ids por_id (i # ids) =
     (case map_of por_id i of
        None \<Rightarrow> Inl KeyError
      | Some p \<Rightarrow>
          (case por_ids por_id ids of
             Inl e \<Rightarrow> Inl e
           | Inr ps \<Rightarrow> Inr (p # ps)))"

definition buscar_por_nombre :: "string \<Rightarrow> Inventario \<Rightarrow> error + Producto list" where
  "buscar_por_nombre consulta self =
     (let q = normaliza consulta;
          ids = (case map_of (nombre_idx self) q of
                   None \<Rightarrow> []
                 | Some s \<Rightarrow> sorted_list_of_set s)
      in case por_ids (productos_por_id self) ids of
           Inl e \<Rightarrow> Inl e
         | Inr encontrados \<Rightarrow>
             if encontrados = []
             then Inr (filter (\<lambda>p. contiene q (normaliza (nombre p)))
                        (map snd (productos_por_id self)))
             else Inr encontrados)"

definition clave_orden :: "Producto \<Rightarrow> int" where
  \<comment> \<open>the sort key \<open>p.id or 0\<close>\<close>
  "clave_orden p = (case id' p of None \<Rightarrow> 0 | Some i \<Rightarrow> if i = 0 then 0 else i)"

definition listar_todos :: "Inventario \<Rightarrow> Producto list" where
  \<comment> \<open>\<open>sorted\<close> is stable, as \<open>sort_key\<close> is\<close>
  "listar_todos self = sort_key clave_orden (map snd (productos_por_id self))"

subsection \<open>Sequences of mutating calls\<close>

datatype operacion =
    Anadir string int real
  | Eliminar int
  | ActualizarCantidad int int
  | ActualizarPrecio int real
  | ActualizarNombre int string

fun ejecutar :: "operacion \<Rightarrow> Inventario \<Rightarrow> Inventario" where
  \<comment> \<open>the state of the object after one call, whatever the call returned or raised\<close>
  "ejecutar (Anadir nom cant prec) self = snd (anadir_producto nom cant prec self)"
| "ejecutar (Eliminar i) self = snd (eliminar_producto i self)"
| "ejecutar (ActualizarCantidad i cant) self = snd (actualizar_cantidad i cant self)"
| "ejecutar (ActualizarPrecio i prec) self = snd (actualizar_precio i prec self)"
| "ejecutar (ActualizarNombre i nom) self = snd (actualizar_nombre i nom self)"

definition tras :: "operacion list \<Rightarrow> Store \<Rightarrow> Inventario" where
  \<comment> \<open>the object built on a table and taken through a sequence of calls\<close>
  "tras ops db = fold ejecutar ops (Inventario_init db)"

definition tabla_vacia :: Store where
  \<comment> \<open>the table right after \<open>CREATE TABLE\<close>\<close>
  "tabla_vacia = \<lparr>filas = [], seq = 0\<rparr>"

subsection \<open>Predicates on the state\<close>

definition sin_vacios :: "(string \<times> int set) list \<Rightarrow> bool" where
  \<comment> \<open>no entry of the name index holds an empty set\<close>
  "sin_vacios idx = (\<forall>(k, s) \<in> set idx. s \<noteq> {})"

definition en_idx :: "(string \<times> int set) list \<Rightarrow> string \<Rightarrow> int \<Rightarrow> bool" where
  \<comment> \<open>the id is in the set that the name index holds under the key\<close>
  "en_idx idx k i = (case map_of idx k of None \<Rightarrow> False | Some s \<Rightarrow> i \<in> s)"

definition campos_de :: "Producto \<Rightarrow> campos" where
  "campos_de p = (nombre p, cantidad p, precio p)"

definition de_fila :: "int \<times> campos \<Rightarrow> Producto" where
  \<comment> \<open>the object \<open>_cargar_desde_db\<close> builds from a row\<close>
  "de_fila = (\<lambda>(i, n, c, pr). \<lparr>id' = Some i, nombre = n, cantidad = c, precio = pr\<rparr>)"

definition coherente :: "Inventario \<Rightarrow> bool" where
  \<comment> \<open>the two dictionaries agree: keys are unique, every object sits under its own id, and
      the name index is exactly the grouping of the ids by normalised name\<close>
  "coherente self =
     (distinct (map fst (productos_por_id self)) \<and>
      distinct (map fst (nombre_idx self)) \<and>
      sin_vacios (nombre_idx self) \<and>
      (\<forall>i p. map_of (productos_por_id self) i = Some p \<longrightarrow> id' p = Some i) \<and>
      (\<forall>k i. en_idx (nombre_idx self) k i =
         (\<exists>p. map_of (productos_por_id self) i = Some p \<and> normaliza (nombre p) = k)))"

definition sincronizado :: "Inventario \<Rightarrow> bool" where
  \<comment> \<open>the dictionary by id mirrors the table, row by row\<close>
  "sincronizado self =
     (store_ok (conn self) \<and>
      (\<forall>i. map_of (filas (conn self)) i = map_option campos_de (map_of (productos_por_id self) i)))"

definition registros :: "Inventario \<Rightarrow> (int \<times> int option \<times> string \<times> int \<times> real) list" where
  \<comment> \<open>the entries of \<open>_productos_por_id\<close>: the key and the fields of the object\<close>
  "registros self = map (\<lambda>(k, p). (k, to_tuple p)) (productos_por_id self)"

definition filas_tabla :: "Inventario \<Rightarrow> (int \<times> int option \<times> string \<times> int \<times> real) list" where
  \<comment> \<open>the rows of the table, in the same shape\<close>
  "filas_tabla self = map (\<lambda>(i, n, c, pr). (i, Some i, n, c, pr)) (filas (conn self))"

fun nombra_vacio :: "operacion \<Rightarrow> bool" where
  \<comment> \<open>the call passes a name that is empty once trimmed\<close>
  "nombra_vacio (Anadir nom cant prec) = (strip nom = [])"
| "nombra_vacio (ActualizarNombre i nom) = (strip nom = [])"
| "nombra_vacio _ = False"

definition nombrados :: "Inventario \<Rightarrow> bool" where
  \<comment> \<open>every object of \<open>_productos_por_id\<close> has a non-empty name\<close>
  "nombrados self = (\<forall>(i, p) \<in> set (productos_por_id self). nombre p \<noteq> [])"

section \<open>Auxiliary facts\<close>

subsection \<open>Strings\<close>

lemma dropWhile_strip: "dropWhile isspace (strip s) = strip s"
proof -
  define t where "t = dropWhile isspace s"
  define u where "u = dropWhile isspace (rev t)"
  have s: "strip s = rev u" by (simp add: strip_def t_def u_def)
  show ?thesis
  proof (cases "u = []")
    case True then show ?thesis by (simp add: s)
  next
    case False
    have "rev t = takeWhile isspace (rev t) @ u" by (simp add: u_def)
    then have "t = rev u @ rev (takeWhile isspace (rev t))"
      by (metis rev_append rev_rev_ident)
    then have "hd t = hd (rev u)" and "t \<noteq> []" using False by (metis hd_append2 rev_is_Nil_conv, auto)
    moreover have "\<not> isspace (hd t)" using \<open>t \<noteq> []\<close> unfolding t_def by (rule hd_dropWhile)
    ultimately show ?thesis by (simp add: s dropWhile_eq_self_iff)
  qed
qed

lemma strip_strip: "strip (strip s) = strip s"
proof -
  have "strip (strip s) = rev (dropWhile isspace (rev (strip s)))"
    by (simp add: strip_def[of "strip s"] dropWhile_strip)
  also have "rev (strip s) = dropWhile isspace (rev (dropWhile isspace s))" by (simp add: strip_def)
  finally show ?thesis by (simp add: strip_def)
qed

lemma normaliza_strip: "normaliza (strip s) = normaliza s"
  by (simp add: normaliza_def strip_strip)

lemma contiene_Nil: "contiene [] s"
  by (induction s) auto

lemma contiene_iff: "contiene q s \<longleftrightarrow> (\<exists>ps ss. s = ps @ q @ ss)"
proof (induction s)
  case Nil then show ?case by auto
next
  case (Cons c cs)
  have a: "q = take (length q) (c # cs) \<longleftrightarrow> (\<exists>ss. c # cs = q @ ss)"
    by (metis append_eq_conv_conj append_take_drop_id)
  have b: "(\<exists>ps ss. c # cs = ps @ q @ ss) \<longleftrightarrow> (\<exists>ss. c # cs = q @ ss) \<or> (\<exists>ps ss. cs = ps @ q @ ss)"
  proof
    assume "\<exists>ps ss. c # cs = ps @ q @ ss"
    then obtain ps ss where e: "c # cs = ps @ q @ ss" by blast
    show "(\<exists>ss. c # cs = q @ ss) \<or> (\<exists>ps ss. cs = ps @ q @ ss)"
    proof (cases ps)
      case Nil then show ?thesis using e by auto
    next
      case (Cons x xs) then show ?thesis using e by auto
    qed
  next
    assume "(\<exists>ss. c # cs = q @ ss) \<or> (\<exists>ps ss. cs = ps @ q @ ss)"
    then show "\<exists>ps ss. c # cs = ps @ q @ ss"
    proof
      assume "\<exists>ss. c # cs = q @ ss"
      then show ?thesis by (metis append_Nil)
    next
      assume "\<exists>ps ss. cs = ps @ q @ ss"
      then show ?thesis by (metis append_Cons)
    qed
  qed
  show ?case using Cons.IH a b by simp
qed

lemma strip_blanco: "\<forall>c\<in>set s. isspace c \<Longrightarrow> strip s = []"
  by (auto simp: strip_def dest: set_dropWhileD)

subsection \<open>Maintenance of the name index\<close>

lemma set_update_subset: "set (AList.update k v al) \<subseteq> insert (k, v) (set al)"
  by (induction al) auto

lemma set_delete_subset: "set (AList.delete k al) \<subseteq> set al"
  by (auto simp: AList.delete_eq)

lemma sin_vacios_update: "sin_vacios idx \<Longrightarrow> s \<noteq> {} \<Longrightarrow> sin_vacios (AList.update k s idx)"
  using set_update_subset[of k s idx] by (auto simp: sin_vacios_def)

lemma sin_vacios_delete: "sin_vacios idx \<Longrightarrow> sin_vacios (AList.delete k idx)"
  using set_delete_subset[of k idx] by (auto simp: sin_vacios_def)

lemma sin_vacios_descartar: "sin_vacios idx \<Longrightarrow> sin_vacios (descartar k j idx)"
  by (simp add: descartar_def sin_vacios_update sin_vacios_delete split: option.split)

lemma distinct_descartar: "distinct (map fst idx) \<Longrightarrow> distinct (map fst (descartar k j idx))"
  by (simp add: descartar_def distinct_update distinct_delete split: option.split)

lemma en_idx_descartar:
  "en_idx (descartar k j idx) k' i = (en_idx idx k' i \<and> \<not> (k' = k \<and> i = j))"
  by (auto simp: en_idx_def descartar_def update_conv' delete_conv' split: option.splits if_splits)

lemma en_idx_update:
  "en_idx (AList.update k (insert j (case map_of idx k of None \<Rightarrow> {} | Some s \<Rightarrow> s)) idx) k' i
     = (en_idx idx k' i \<or> (k' = k \<and> i = j))"
  by (auto simp: en_idx_def update_conv' split: option.splits)

lemma conn_indexar: "conn (indexar p self) = conn self"
  by (simp add: indexar_def Let_def split: option.split)

lemma por_id_indexar:
  "id' p = Some i \<Longrightarrow> productos_por_id (indexar p self) = AList.update i p (productos_por_id self)"
  by (simp add: indexar_def Let_def)

lemma idx_indexar:
  "id' p = Some i \<Longrightarrow>
   nombre_idx (indexar p self) =
     AList.update (normaliza (nombre p))
       (insert i (case map_of (nombre_idx self) (normaliza (nombre p)) of None \<Rightarrow> {} | Some s \<Rightarrow> s))
       (nombre_idx self)"
  by (simp add: indexar_def Let_def update_conv' split: option.split)

lemma indexar_sin_id: "id' p = None \<Longrightarrow> indexar p self = self"
  by (simp add: indexar_def)

lemma sin_vacios_indexar: "sin_vacios (nombre_idx self) \<Longrightarrow> sin_vacios (nombre_idx (indexar p self))"
  by (cases "id' p") (simp_all add: indexar_sin_id idx_indexar sin_vacios_update)

lemma sin_vacios_desindexar: "sin_vacios (nombre_idx self) \<Longrightarrow> sin_vacios (nombre_idx (desindexar p self))"
  by (cases "id' p") (simp_all add: desindexar_def sin_vacios_descartar)

lemma sin_vacios_reindexar:
  "sin_vacios (nombre_idx self) \<Longrightarrow> sin_vacios (nombre_idx (reindexar_nombre p ant self))"
  by (cases "id' p") (simp_all add: reindexar_nombre_def sin_vacios_descartar sin_vacios_indexar)

text \<open>Indexing a product whose id is new, or whose normalised name is the one indexed.\<close>

lemma coherente_indexar:
  assumes "coherente self" and "id' p = Some i"
    and "\<forall>p0. map_of (productos_por_id self) i = Some p0 \<longrightarrow> normaliza (nombre p0) = normaliza (nombre p)"
  shows "coherente (indexar p self)"
  using assms
  unfolding coherente_def
  apply (simp add: por_id_indexar idx_indexar distinct_update sin_vacios_update update_conv' en_idx_update)
  apply auto
  done

lemma coherente_desindexar:
  assumes "coherente self" and "map_of (productos_por_id self) i = Some p"
  shows "coherente (desindexar p self)"
proof -
  have idp: "id' p = Some i" using assms by (simp add: coherente_def)
  show ?thesis
    using assms idp unfolding coherente_def
    apply (simp add: desindexar_def distinct_delete distinct_descartar sin_vacios_descartar delete_conv' en_idx_descartar)
    apply (auto dest: eq_key_imp_eq_value)
    done
qed

subsection \<open>The table\<close>

lemma fold_max_ge: "a \<le> fold max xs (a::int)"
proof (induction xs arbitrary: a)
  case Nil then show ?case by simp
next
  case (Cons y ys)
  have "a \<le> max y a" by simp
  also have "max y a \<le> fold max ys (max y a)" by (rule Cons.IH)
  finally show ?case by simp
qed

lemma fold_max_ge_elem: "x \<in> set xs \<Longrightarrow> x \<le> fold max xs (a::int)"
proof (induction xs arbitrary: a)
  case Nil then show ?case by simp
next
  case (Cons y ys)
  show ?case
  proof (cases "x = y")
    case True
    have "y \<le> max y a" by simp
    also have "max y a \<le> fold max ys (max y a)" by (rule fold_max_ge)
    finally show ?thesis using True by simp
  next
    case False
    then show ?thesis using Cons by simp
  qed
qed

lemma map_of_snoc:
  "k \<notin> fst ` set al \<Longrightarrow> map_of (al @ [(k, v)]) = (map_of al)(k \<mapsto> v)"
  by (induction al) (auto simp: fun_eq_iff)

lemma sql_insert_Inr:
  assumes "sql_insert nom cant prec db = Inr (nuevo_id, db')"
  shows "nuevo_id \<notin> fst ` set (filas db)" and "sqlite_integer nuevo_id"
    and "filas db' = filas db @ [(nuevo_id, (nom, cant, prec))]"
proof -
  let ?n = "fold max (map fst (filas db)) (seq db) + 1"
  from assms have n: "nuevo_id = ?n" and i: "sqlite_integer ?n"
    and f: "db' = db\<lparr>filas := filas db @ [(?n, (nom, cant, prec))], seq := ?n\<rparr>"
    by (auto simp: sql_insert_def Let_def split: if_splits)
  show "sqlite_integer nuevo_id" using n i by simp
  show "filas db' = filas db @ [(nuevo_id, (nom, cant, prec))]" using n f by simp
  show "nuevo_id \<notin> fst ` set (filas db)"
  proof
    assume "nuevo_id \<in> fst ` set (filas db)"
    then have "nuevo_id \<in> set (map fst (filas db))" by simp
    then have "nuevo_id \<le> fold max (map fst (filas db)) (seq db)" by (rule fold_max_ge_elem)
    then show False using n by simp
  qed
qed

lemma map_of_sql_set:
  "map_of (filas (sql_set i f db)) j = (if j = i then map_option f (map_of (filas db) j) else map_of (filas db) j)"
proof -
  have "map_of (map (\<lambda>(j, r). if j = i then (j, f r) else (j, r)) rs) j
          = (if j = i then map_option f (map_of rs j) else map_of rs j)" for rs
    by (induction rs) auto
  then show ?thesis by (simp add: sql_set_def)
qed

lemma claves_sql_set: "map fst (filas (sql_set i f db)) = map fst (filas db)"
  by (auto simp: sql_set_def split: prod.splits)

lemma store_ok_sql_set: "store_ok db \<Longrightarrow> store_ok (sql_set i f db)"
  by (simp add: store_ok_def claves_sql_set)

lemma store_ok_delete: "store_ok db \<Longrightarrow> store_ok (db\<lparr>filas := AList.delete i (filas db)\<rparr>)"
  using set_delete_subset[of i "filas db"] by (auto simp: store_ok_def distinct_delete)

lemma store_ok_insert:
  assumes "store_ok db" and "sql_insert nom cant prec db = Inr (nuevo_id, db')"
  shows "store_ok db'"
  using assms(1) sql_insert_Inr[OF assms(2)] by (auto simp: store_ok_def)

lemma coherente_conn [simp]: "coherente (self\<lparr>conn := db\<rparr>) = coherente self"
  by (simp add: coherente_def)

lemma sinc_None:
  "sincronizado self \<Longrightarrow> i \<notin> fst ` set (filas (conn self)) \<Longrightarrow> map_of (productos_por_id self) i = None"
proof -
  assume s: "sincronizado self" and n: "i \<notin> fst ` set (filas (conn self))"
  from n have "map_of (filas (conn self)) i = None" by (simp add: map_of_eq_None_iff)
  with s show ?thesis by (simp add: sincronizado_def)
qed

lemma sinc_integer:
  "sincronizado self \<Longrightarrow> map_of (productos_por_id self) i = Some p \<Longrightarrow> sqlite_integer i"
proof -
  assume s: "sincronizado self" and m: "map_of (productos_por_id self) i = Some p"
  from s m have "map_of (filas (conn self)) i = Some (campos_de p)" by (simp add: sincronizado_def)
  then have "i \<in> set (map fst (filas (conn self)))" by (metis map_of_SomeD image_eqI fst_conv set_map)
  with s show ?thesis by (auto simp: sincronizado_def store_ok_def)
qed

lemma coherente_update:
  assumes "coherente self" and "map_of (productos_por_id self) i = Some p"
    and "id' p' = Some i" and "normaliza (nombre p') = normaliza (nombre p)"
  shows "coherente (self\<lparr>productos_por_id := AList.update i p' (productos_por_id self)\<rparr>)"
  using assms unfolding coherente_def
  by (auto simp add: distinct_update update_conv' simp del: map_of_eq_Some_iff)

lemma anadir_ok:
  assumes "coherente self" and "sincronizado self"
  shows "coherente (snd (anadir_producto nom cant prec self))
       \<and> sincronizado (snd (anadir_producto nom cant prec self))"
proof (cases "cant < 0 \<or> prec < 0")
  case True then show ?thesis using assms by (simp add: anadir_producto_def)
next
  case False
  show ?thesis
  proof (cases "sql_insert (strip nom) cant prec (conn self)")
    case (Inl e) then show ?thesis using assms False by (simp add: anadir_producto_def)
  next
    case (Inr r)
    obtain nid db where r: "r = (nid, db)" by (cases r)
    define p where "p = \<lparr>id' = Some nid, nombre = strip nom, cantidad = cant, precio = prec\<rparr>"
    have ins: "sql_insert (strip nom) cant prec (conn self) = Inr (nid, db)" using Inr r by simp
    note facts = sql_insert_Inr[OF ins]
    have res: "snd (anadir_producto nom cant prec self) = indexar p (self\<lparr>conn := db\<rparr>)"
      using False ins by (simp add: anadir_producto_def p_def Let_def)
    have fresh: "map_of (productos_por_id self) nid = None"
      using assms(2) facts(1) by (rule sinc_None)
    have c: "coherente (indexar p (self\<lparr>conn := db\<rparr>))"
      by (rule coherente_indexar[where i = nid]) (use assms fresh in \<open>simp_all add: p_def\<close>)
    have m: "map_of (filas db) = (map_of (filas (conn self)))(nid \<mapsto> (strip nom, cant, prec))"
      unfolding facts(3) using facts(1) by (rule map_of_snoc)
    have s: "sincronizado (indexar p (self\<lparr>conn := db\<rparr>))"
      using assms(2) store_ok_insert[OF _ ins]
      by (simp add: sincronizado_def conn_indexar por_id_indexar[where i = nid] p_def update_conv'
            campos_de_def m)
    show ?thesis using res c s by simp
  qed
qed

lemma eliminar_ok:
  assumes "coherente self" and "sincronizado self"
  shows "coherente (snd (eliminar_producto i self))
       \<and> sincronizado (snd (eliminar_producto i self))"
proof (cases "map_of (productos_por_id self) i")
  case None then show ?thesis using assms by (simp add: eliminar_producto_def)
next
  case (Some p)
  have idp: "id' p = Some i" using assms(1) Some by (simp add: coherente_def)
  have int: "sqlite_integer i" using assms(2) Some by (rule sinc_integer)
  have res: "snd (eliminar_producto i self) = desindexar p (self\<lparr>conn := (conn self)\<lparr>filas := AList.delete i (filas (conn self))\<rparr>\<rparr>)"
    using Some int by (simp add: eliminar_producto_def sql_delete_def)
  have c: "coherente (desindexar p (self\<lparr>conn := (conn self)\<lparr>filas := AList.delete i (filas (conn self))\<rparr>\<rparr>))"
    by (rule coherente_desindexar[where i = i]) (use assms Some in simp_all)
  have s: "sincronizado (desindexar p (self\<lparr>conn := (conn self)\<lparr>filas := AList.delete i (filas (conn self))\<rparr>\<rparr>))"
    using assms(2) idp store_ok_delete[of "conn self" i]
    by (auto simp: sincronizado_def desindexar_def delete_conv')
  show ?thesis using res c s by simp
qed

lemma cantidad_ok:
  assumes "coherente self" and "sincronizado self"
  shows "coherente (snd (actualizar_cantidad i cant self))
       \<and> sincronizado (snd (actualizar_cantidad i cant self))"
proof (cases "cant < 0 \<or> map_of (productos_por_id self) i = None \<or> \<not> sqlite_integer cant")
  case True then show ?thesis using assms
    by (auto simp: actualizar_cantidad_def sql_update_cantidad_def split: option.splits)
next
  case False
  then obtain p where Some: "map_of (productos_por_id self) i = Some p" by auto
  have idp: "id' p = Some i" using assms(1) Some by (simp add: coherente_def)
  have int: "sqlite_integer i" using assms(2) Some by (rule sinc_integer)
  let ?db = "sql_set i (\<lambda>(n, c, pr). (n, cant, pr)) (conn self)"
  let ?p = "p\<lparr>cantidad := cant\<rparr>"
  have res: "snd (actualizar_cantidad i cant self) =
      self\<lparr>conn := ?db, productos_por_id := AList.update i ?p (productos_por_id self)\<rparr>"
    using False Some int by (simp add: actualizar_cantidad_def sql_update_cantidad_def set_cantidad_def)
  have "coherente (self\<lparr>productos_por_id := AList.update i ?p (productos_por_id self)\<rparr>)"
    by (rule coherente_update[where p = p]) (use assms Some idp in simp_all)
  then have c: "coherente (self\<lparr>conn := ?db, productos_por_id := AList.update i ?p (productos_por_id self)\<rparr>)"
    by (simp add: coherente_def)
  have s: "sincronizado (self\<lparr>conn := ?db, productos_por_id := AList.update i ?p (productos_por_id self)\<rparr>)"
    using assms(2) Some
    by (auto simp: sincronizado_def store_ok_sql_set map_of_sql_set update_conv' campos_de_def)
  show ?thesis using res c s by simp
qed

lemma precio_ok:
  assumes "coherente self" and "sincronizado self"
  shows "coherente (snd (actualizar_precio i prec self))
       \<and> sincronizado (snd (actualizar_precio i prec self))"
proof (cases "prec < 0 \<or> map_of (productos_por_id self) i = None")
  case True then show ?thesis using assms
    by (auto simp: actualizar_precio_def split: option.splits)
next
  case False
  then obtain p where Some: "map_of (productos_por_id self) i = Some p" by auto
  have idp: "id' p = Some i" using assms(1) Some by (simp add: coherente_def)
  have int: "sqlite_integer i" using assms(2) Some by (rule sinc_integer)
  let ?db = "sql_set i (\<lambda>(n, c, pr). (n, c, prec)) (conn self)"
  let ?p = "p\<lparr>precio := prec\<rparr>"
  have res: "snd (actualizar_precio i prec self) =
      self\<lparr>conn := ?db, productos_por_id := AList.update i ?p (productos_por_id self)\<rparr>"
    using False Some int by (simp add: actualizar_precio_def sql_update_precio_def set_precio_def)
  have "coherente (self\<lparr>productos_por_id := AList.update i ?p (productos_por_id self)\<rparr>)"
    by (rule coherente_update[where p = p]) (use assms Some idp in simp_all)
  then have c: "coherente (self\<lparr>conn := ?db, productos_por_id := AList.update i ?p (productos_por_id self)\<rparr>)"
    by (simp add: coherente_def)
  have s: "sincronizado (self\<lparr>conn := ?db, productos_por_id := AList.update i ?p (productos_por_id self)\<rparr>)"
    using assms(2) Some
    by (auto simp: sincronizado_def store_ok_sql_set map_of_sql_set update_conv' campos_de_def)
  show ?thesis using res c s by simp
qed

subsection \<open>Every call keeps the dictionaries coherent and in step with the table\<close>

lemma nombre_res:
  assumes "map_of (productos_por_id self) i = Some p" and "id' p = Some i" and "sqlite_integer i"
  shows "actualizar_nombre i nuevo self =
     (Inr True,
      self\<lparr>conn := sql_set i (\<lambda>(n, c, pr). (strip nuevo, c, pr)) (conn self),
           productos_por_id := AList.update i (p\<lparr>nombre := strip nuevo\<rparr>) (productos_por_id self),
           nombre_idx :=
             AList.update (normaliza nuevo)
               (insert i (case map_of (descartar (normaliza (nombre p)) i (nombre_idx self)) (normaliza nuevo) of
                            None \<Rightarrow> {} | Some s \<Rightarrow> s))
               (descartar (normaliza (nombre p)) i (nombre_idx self))\<rparr>)"
proof -
  let ?p = "p\<lparr>nombre := strip nuevo\<rparr>"
  let ?db = "sql_set i (\<lambda>(n, c, pr). (strip nuevo, c, pr)) (conn self)"
  let ?s1 = "self\<lparr>conn := ?db, productos_por_id := AList.update i ?p (productos_por_id self)\<rparr>"
  let ?s2 = "?s1\<lparr>nombre_idx := descartar (normaliza (nombre p)) i (nombre_idx ?s1)\<rparr>"
  have a: "actualizar_nombre i nuevo self = (Inr True, reindexar_nombre ?p (nombre p) ?s1)"
    using assms by (simp add: actualizar_nombre_def sql_update_nombre_def Let_def)
  have b: "reindexar_nombre ?p (nombre p) ?s1 = indexar ?p ?s2"
    using assms(2) by (simp add: reindexar_nombre_def)
  have idp: "id' ?p = Some i" using assms(2) by simp
  have c: "indexar ?p ?s2 =
      ?s2\<lparr>productos_por_id := productos_por_id (indexar ?p ?s2), nombre_idx := nombre_idx (indexar ?p ?s2)\<rparr>"
    by (simp add: indexar_def Let_def split: option.split)
  show ?thesis
    unfolding a b
    apply (subst c)
    apply (simp add: por_id_indexar[OF idp] idx_indexar[OF idp] normaliza_strip)
    done
qed

lemma nombre_ok:
  assumes "coherente self" and "sincronizado self"
  shows "coherente (snd (actualizar_nombre i nuevo self))
       \<and> sincronizado (snd (actualizar_nombre i nuevo self))"
proof (cases "map_of (productos_por_id self) i")
  case None then show ?thesis using assms by (simp add: actualizar_nombre_def)
next
  case (Some p)
  have idp: "id' p = Some i" using assms(1) Some by (simp add: coherente_def)
  have int: "sqlite_integer i" using assms(2) Some by (rule sinc_integer)
  note res = nombre_res[OF Some idp int, of nuevo]
  have c: "coherente (snd (actualizar_nombre i nuevo self))"
    using assms(1) Some idp unfolding res coherente_def
    apply (simp add: distinct_update distinct_descartar sin_vacios_update sin_vacios_descartar
        update_conv' en_idx_update en_idx_descartar normaliza_strip del: map_of_eq_Some_iff)
    apply (auto simp del: map_of_eq_Some_iff)
    done
  have s: "sincronizado (snd (actualizar_nombre i nuevo self))"
    using assms(2) Some unfolding res
    by (auto simp: sincronizado_def store_ok_sql_set map_of_sql_set update_conv' campos_de_def)
  show ?thesis using c s by simp
qed

lemma ejecutar_ok:
  assumes "coherente self" and "sincronizado self"
  shows "coherente (ejecutar op self) \<and> sincronizado (ejecutar op self)"
  using assms
  by (cases op) (simp_all add: anadir_ok eliminar_ok cantidad_ok precio_ok nombre_ok)

lemma fold_ejecutar_ok:
  "coherente self \<Longrightarrow> sincronizado self \<Longrightarrow>
   coherente (fold ejecutar ops self) \<and> sincronizado (fold ejecutar ops self)"
proof (induction ops arbitrary: self)
  case Nil then show ?case by simp
next
  case (Cons op ops)
  have "coherente (ejecutar op self) \<and> sincronizado (ejecutar op self)"
    using Cons.prems by (rule ejecutar_ok)
  then show ?case using Cons.IH by simp
qed

lemma cargar_fold:
  assumes "distinct (map fst rs)" and "coherente self"
    and "\<forall>i \<in> fst ` set rs. map_of (productos_por_id self) i = None"
  shows "coherente (fold (\<lambda>(i, n, c, pr). indexar \<lparr>id' = Some i, nombre = n, cantidad = c, precio = pr\<rparr>) rs self)
     \<and> conn (fold (\<lambda>(i, n, c, pr). indexar \<lparr>id' = Some i, nombre = n, cantidad = c, precio = pr\<rparr>) rs self) = conn self
     \<and> (\<forall>j. map_of (productos_por_id (fold (\<lambda>(i, n, c, pr). indexar \<lparr>id' = Some i, nombre = n, cantidad = c, precio = pr\<rparr>) rs self)) j
           = (case map_of rs j of None \<Rightarrow> map_of (productos_por_id self) j
              | Some r \<Rightarrow> Some (de_fila (j, r))))"
  using assms
proof (induction rs arbitrary: self)
  case Nil then show ?case by simp
next
  case (Cons r rs)
  obtain i n c pr where r: "r = (i, n, c, pr)" by (cases r) auto
  let ?p = "\<lparr>id' = Some i, nombre = n, cantidad = c, precio = pr\<rparr>"
  have fresh: "map_of (productos_por_id self) i = None" using Cons.prems(3) r by simp
  have c1: "coherente (indexar ?p self)"
    by (rule coherente_indexar[where i = i]) (use Cons.prems(2) fresh in simp_all)
  have m1: "map_of (productos_por_id (indexar ?p self)) = (map_of (productos_por_id self))(i \<mapsto> ?p)"
    by (simp add: por_id_indexar[where i = i] update_conv')
  have d: "distinct (map fst rs)" and ni: "i \<notin> fst ` set rs" using Cons.prems(1) r by auto
  have f1: "\<forall>j \<in> fst ` set rs. map_of (productos_por_id (indexar ?p self)) j = None"
    using Cons.prems(3) ni unfolding m1 by auto
  note IH = Cons.IH[OF d c1 f1]
  have nn: "map_of rs i = None" using ni by (simp add: map_of_eq_None_iff)
  show ?case
    using IH nn unfolding r
    by (auto simp: conn_indexar m1 de_fila_def split: option.splits)
qed

lemma init_ok:
  assumes "store_ok db"
  shows "coherente (Inventario_init db) \<and> sincronizado (Inventario_init db)"
proof -
  let ?e = "\<lparr>conn = db, productos_por_id = [], nombre_idx = []\<rparr>"
  have c0: "coherente ?e" by (simp add: coherente_def sin_vacios_def en_idx_def)
  have d: "distinct (map fst (filas (conn ?e)))" using assms by (simp add: store_ok_def)
  have f: "\<forall>i \<in> fst ` set (filas (conn ?e)). map_of (productos_por_id ?e) i = None" by simp
  have e: "?e\<lparr>productos_por_id := [], nombre_idx := []\<rparr> = ?e" by simp
  note F = cargar_fold[OF d c0 f]
  have i: "Inventario_init db = fold (\<lambda>(i, n, c, pr). indexar \<lparr>id' = Some i, nombre = n, cantidad = c, precio = pr\<rparr>) (filas (conn ?e)) ?e"
    by (simp add: Inventario_init_def cargar_desde_db_def)
  show ?thesis
    unfolding i using F assms
    by (auto simp: sincronizado_def de_fila_def campos_de_def split: option.splits)
qed

lemma tras_ok: "store_ok db \<Longrightarrow> coherente (tras ops db) \<and> sincronizado (tras ops db)"
  unfolding tras_def using init_ok[of db] fold_ejecutar_ok by blast

subsection \<open>A call that raises leaves the object as it was\<close>


lemma fallo_sin_cambios:
  "(fst (anadir_producto nom cant prec self) = Inl e \<longrightarrow> snd (anadir_producto nom cant prec self) = self) \<and>
   (fst (eliminar_producto i self) = Inl e \<longrightarrow> snd (eliminar_producto i self) = self) \<and>
   (fst (actualizar_cantidad i cant self) = Inl e \<longrightarrow> snd (actualizar_cantidad i cant self) = self) \<and>
   (fst (actualizar_precio i prec self) = Inl e \<longrightarrow> snd (actualizar_precio i prec self) = self) \<and>
   (fst (actualizar_nombre i nom self) = Inl e \<longrightarrow> snd (actualizar_nombre i nom self) = self)"
  by (auto simp: anadir_producto_def eliminar_producto_def actualizar_cantidad_def
        actualizar_precio_def actualizar_nombre_def set_cantidad_def set_precio_def Let_def
      split: sum.splits option.splits if_splits prod.splits)

section \<open>The properties of the specification\<close>

subsection \<open>The dictionary by id and the table\<close>

lemma registros_iff:
  assumes "coherente self" and "sincronizado self"
  shows "set (registros self) = set (filas_tabla self)"
proof -
  have d1: "distinct (map fst (productos_por_id self))" using assms(1) by (simp add: coherente_def)
  have d2: "distinct (map fst (filas (conn self)))" using assms(2) by (simp add: sincronizado_def store_ok_def)
  have k: "\<And>i p. map_of (productos_por_id self) i = Some p \<Longrightarrow> id' p = Some i"
    using assms(1) by (simp add: coherente_def)
  have m: "\<And>i. map_of (filas (conn self)) i = map_option campos_de (map_of (productos_por_id self) i)"
    using assms(2) by (simp add: sincronizado_def)
  show ?thesis
  proof (intro set_eqI iffI)
    fix x assume "x \<in> set (registros self)"
    then obtain i p where ip: "(i, p) \<in> set (productos_por_id self)" and x: "x = (i, to_tuple p)"
      by (auto simp: registros_def)
    have mp: "map_of (productos_por_id self) i = Some p" using d1 ip by simp
    then have "map_of (filas (conn self)) i = Some (campos_de p)" by (simp add: m)
    then have "(i, campos_de p) \<in> set (filas (conn self))" by (rule map_of_SomeD)
    then have "(\<lambda>(i, n, c, pr). (i, Some i, n, c, pr)) (i, campos_de p) \<in> set (filas_tabla self)"
      unfolding filas_tabla_def by (simp only: set_map) (rule imageI)
    then show "x \<in> set (filas_tabla self)" using x k[OF mp] by (simp add: campos_de_def to_tuple_def)
  next
    fix x assume "x \<in> set (filas_tabla self)"
    then obtain i n c pr where r: "(i, n, c, pr) \<in> set (filas (conn self))" and x: "x = (i, Some i, n, c, pr)"
      by (auto simp: filas_tabla_def)
    have "map_of (filas (conn self)) i = Some (n, c, pr)" using d2 r by simp
    then obtain p where mp: "map_of (productos_por_id self) i = Some p" and c: "campos_de p = (n, c, pr)"
      by (auto simp: m)
    have "(i, p) \<in> set (productos_por_id self)" using mp by (rule map_of_SomeD)
    then have "(\<lambda>(k, p). (k, to_tuple p)) (i, p) \<in> set (registros self)"
      unfolding registros_def by (simp only: set_map) (rule imageI)
    then show "x \<in> set (registros self)" using x c k[OF mp] by (simp add: campos_de_def to_tuple_def)
  qed
qed

lemma distinct_registros: "coherente self \<Longrightarrow> distinct (registros self)"
proof -
  assume "coherente self"
  then have "distinct (map fst (registros self))"
    by (simp add: coherente_def registros_def comp_def case_prod_unfold)
  then show ?thesis by (simp add: distinct_map)
qed

lemma distinct_filas_tabla: "sincronizado self \<Longrightarrow> distinct (filas_tabla self)"
proof -
  assume "sincronizado self"
  then have "distinct (map fst (filas_tabla self))"
    by (simp add: sincronizado_def store_ok_def filas_tabla_def comp_def case_prod_unfold)
  then show ?thesis by (simp add: distinct_map)
qed

text \<open>
  \<^bold>\<open>C1\<close> (index/store convergence). Build the object on any table and take it through any
  sequence of \<open>anadir_producto\<close>, \<open>eliminar_producto\<close>, \<open>actualizar_cantidad\<close>,
  \<open>actualizar_precio\<close> and \<open>actualizar_nombre\<close> calls, failing ones included. Then the
  entries of \<open>_productos_por_id\<close>, read as (key, id, name, quantity, price), are exactly the
  rows of the table \<open>productos\<close>, each once. The sequence is arbitrary, so this holds
  after each of its calls.
\<close>

theorem convergencia:
  assumes "store_ok db"
  shows "mset (registros (tras ops db)) = mset (filas_tabla (tras ops db))"
proof -
  have c: "coherente (tras ops db)" and s: "sincronizado (tras ops db)"
    using tras_ok[OF assms] by simp_all
  show ?thesis
    using registros_iff[OF c s] distinct_registros[OF c] distinct_filas_tabla[OF s]
    by (simp add: set_eq_iff_mset_eq_distinct)
qed

theorem convergencia_witness:
  "store_ok \<lparr>filas = [(7, (''Pen'', 3, 2))], seq = 7\<rparr> \<and>
   mset (registros (tras [Anadir ''Ink'' 1 4, ActualizarCantidad 7 5, ActualizarNombre 8 '' Red ink '',
                          Eliminar 7, ActualizarPrecio 8 6]
           \<lparr>filas = [(7, (''Pen'', 3, 2))], seq = 7\<rparr>))
     = mset (filas_tabla (tras [Anadir ''Ink'' 1 4, ActualizarCantidad 7 5, ActualizarNombre 8 '' Red ink '',
                          Eliminar 7, ActualizarPrecio 8 6]
           \<lparr>filas = [(7, (''Pen'', 3, 2))], seq = 7\<rparr>))"
proof -
  have h: "store_ok \<lparr>filas = [(7, (''Pen'', 3, 2))], seq = 7\<rparr>"
    by (simp add: store_ok_def sqlite_integer_def)
  show ?thesis using h convergencia[OF h] by simp
qed

text \<open>
  \<^bold>\<open>C2\<close> (negative rejection). In every state, for every name and every id, present or
  not: \<open>anadir_producto\<close> with a negative quantity or price, \<open>actualizar_cantidad\<close> with a
  negative quantity and \<open>actualizar_precio\<close> with a negative price raise \<open>ValueError\<close>, and
  the object after the call (table, \<open>_productos_por_id\<close>, \<open>_nombre_idx\<close>) is the object
  before it.
\<close>

theorem rechazo_negativos:
  "(cant < 0 \<or> prec < 0 \<longrightarrow> anadir_producto nom cant prec self = (Inl ValueError, self)) \<and>
   (cant < 0 \<longrightarrow> actualizar_cantidad i cant self = (Inl ValueError, self)) \<and>
   (prec < 0 \<longrightarrow> actualizar_precio i prec self = (Inl ValueError, self))"
  by (simp add: anadir_producto_def actualizar_cantidad_def actualizar_precio_def)

theorem rechazo_negativos_witness:
  "((-1::int) < 0 \<or> (5::real) < 0) \<and> (-1::int) < 0 \<and> (-2::real) < 0 \<and>
   anadir_producto ''a'' (-1) 5 (tras [Anadir ''Pen'' 1 1] tabla_vacia)
     = (Inl ValueError, tras [Anadir ''Pen'' 1 1] tabla_vacia) \<and>
   actualizar_cantidad 9 (-1) (tras [Anadir ''Pen'' 1 1] tabla_vacia)
     = (Inl ValueError, tras [Anadir ''Pen'' 1 1] tabla_vacia) \<and>
   actualizar_precio 1 (-2) (tras [Anadir ''Pen'' 1 1] tabla_vacia)
     = (Inl ValueError, tras [Anadir ''Pen'' 1 1] tabla_vacia)"
  using rechazo_negativos[of "-1" 5 "''a''" "tras [Anadir ''Pen'' 1 1] tabla_vacia" 9]
        rechazo_negativos[of "-1" "-2" "''a''" "tras [Anadir ''Pen'' 1 1] tabla_vacia" 1]
  by simp

subsection \<open>Search by name\<close>

lemma coherente_en_idx:
  "coherente self \<Longrightarrow> map_of (nombre_idx self) k = Some s \<Longrightarrow>
   (i \<in> s) = (\<exists>p. map_of (productos_por_id self) i = Some p \<and> normaliza (nombre p) = k)"
proof -
  assume c: "coherente self" and m: "map_of (nombre_idx self) k = Some s"
  have "en_idx (nombre_idx self) k i = (i \<in> s)" using m by (simp add: en_idx_def)
  then show ?thesis using c unfolding coherente_def by blast
qed

lemma coherente_no_vacio:
  "coherente self \<Longrightarrow> map_of (nombre_idx self) k = Some s \<Longrightarrow> s \<noteq> {}"
proof -
  assume c: "coherente self" and m: "map_of (nombre_idx self) k = Some s"
  have "(k, s) \<in> set (nombre_idx self)" using m by (rule map_of_SomeD)
  then show ?thesis using c by (auto simp: coherente_def sin_vacios_def)
qed

lemma coherente_None:
  "coherente self \<Longrightarrow>
   (map_of (nombre_idx self) k = None) =
   (\<forall>i p. map_of (productos_por_id self) i = Some p \<longrightarrow> normaliza (nombre p) \<noteq> k)"
proof
  assume c: "coherente self" and n: "map_of (nombre_idx self) k = None"
  have "\<And>i. \<not> en_idx (nombre_idx self) k i" using n by (simp add: en_idx_def)
  then show "\<forall>i p. map_of (productos_por_id self) i = Some p \<longrightarrow> normaliza (nombre p) \<noteq> k"
    using c unfolding coherente_def by blast
next
  assume c: "coherente self"
    and a: "\<forall>i p. map_of (productos_por_id self) i = Some p \<longrightarrow> normaliza (nombre p) \<noteq> k"
  show "map_of (nombre_idx self) k = None"
  proof (cases "map_of (nombre_idx self) k")
    case None then show ?thesis .
  next
    case (Some s)
    then obtain i where "i \<in> s" using coherente_no_vacio[OF c Some] by blast
    then show ?thesis using coherente_en_idx[OF c Some, of i] a by blast
  qed
qed

lemma coherente_finito:
  "coherente self \<Longrightarrow> map_of (nombre_idx self) k = Some s \<Longrightarrow> finite s"
proof -
  assume c: "coherente self" and m: "map_of (nombre_idx self) k = Some s"
  have "s \<subseteq> fst ` set (productos_por_id self)"
  proof
    fix i assume "i \<in> s"
    then obtain p where "map_of (productos_por_id self) i = Some p"
      using coherente_en_idx[OF c m, of i] by blast
    then have "(i, p) \<in> set (productos_por_id self)" by (rule map_of_SomeD)
    then show "i \<in> fst ` set (productos_por_id self)" by force
  qed
  then show ?thesis by (rule finite_subset) simp
qed

lemma por_ids_Inr:
  "\<forall>i \<in> set ids. map_of por_id i \<noteq> None \<Longrightarrow>
   por_ids por_id ids = Inr (map (\<lambda>i. the (map_of por_id i)) ids)"
  by (induction ids) auto

lemma buscar_parcial:
  assumes "map_of (nombre_idx self) (normaliza consulta) = None"
  shows "buscar_por_nombre consulta self =
     Inr (filter (\<lambda>p. contiene (normaliza consulta) (normaliza (nombre p)))
            (map snd (productos_por_id self)))"
  using assms by (simp add: buscar_por_nombre_def)

lemma buscar_exacto:
  assumes "coherente self" and "map_of (nombre_idx self) (normaliza consulta) = Some s"
  shows "\<exists>ps. buscar_por_nombre consulta self = Inr ps \<and> ps \<noteq> [] \<and> length ps = card s \<and>
           set ps = {p. \<exists>i \<in> s. map_of (productos_por_id self) i = Some p}"
proof -
  let ?ids = "sorted_list_of_set s"
  let ?ps = "map (\<lambda>i. the (map_of (productos_por_id self) i)) ?ids"
  have fin: "finite s" using assms by (rule coherente_finito)
  have ne: "s \<noteq> {}" using assms by (rule coherente_no_vacio)
  have keys: "\<forall>i \<in> set ?ids. map_of (productos_por_id self) i \<noteq> None"
    using fin coherente_en_idx[OF assms] by auto
  have p: "por_ids (productos_por_id self) ?ids = Inr ?ps" using keys by (rule por_ids_Inr)
  have nn: "?ps \<noteq> []" using fin ne by simp
  have b: "buscar_por_nombre consulta self = Inr ?ps"
    using assms(2) p nn by (simp add: buscar_por_nombre_def)
  have l: "length ?ps = card s" using fin by simp
  have "set ?ps = (\<lambda>i. the (map_of (productos_por_id self) i)) ` s" using fin by simp
  also have "\<dots> = {p. \<exists>i \<in> s. map_of (productos_por_id self) i = Some p}"
    using coherente_en_idx[OF assms] by force
  finally show ?thesis using b nn l by blast
qed

text \<open>
  \<^bold>\<open>C3\<close> (the two tiers of \<open>buscar_por_nombre\<close>). In every state reached from a table by
  the mutating calls, let \<open>ids\<close> be the set \<open>_nombre_idx.get(q, set())\<close> for the normalised
  query \<open>q\<close>. If \<open>ids\<close> is not empty the call returns the objects stored under those ids,
  one per id and nothing else, all of normalised name \<open>q\<close>. If \<open>ids\<close> is empty (a missing
  key included) the call returns the objects whose normalised name contains \<open>q\<close>, in the
  order of \<open>_productos_por_id\<close>. The cases exclude each other, so no answer mixes them.
\<close>

theorem busqueda_por_niveles:
  assumes "store_ok db" and "self = tras ops db" and "q = normaliza consulta"
    and "ids = (case map_of (nombre_idx self) q of None \<Rightarrow> {} | Some s \<Rightarrow> s)"
  shows "(ids \<noteq> {} \<longrightarrow>
            (\<exists>ps. buscar_por_nombre consulta self = Inr ps \<and> length ps = card ids \<and>
                  set ps = {p. \<exists>i \<in> ids. map_of (productos_por_id self) i = Some p} \<and>
                  (\<forall>p \<in> set ps. normaliza (nombre p) = q))) \<and>
         (ids = {} \<longrightarrow>
            buscar_por_nombre consulta self =
              Inr (filter (\<lambda>p. contiene q (normaliza (nombre p))) (map snd (productos_por_id self))))"
proof (cases "map_of (nombre_idx self) q")
  case None
  then show ?thesis using assms(3,4) buscar_parcial[of self consulta] by simp
next
  case (Some s)
  have c: "coherente self" using tras_ok[OF assms(1)] assms(2) by simp
  have m: "map_of (nombre_idx self) (normaliza consulta) = Some s" using Some assms(3) by simp
  have ids: "ids = s" using Some assms(4) by simp
  obtain ps where b: "buscar_por_nombre consulta self = Inr ps" and l: "length ps = card s"
    and s: "set ps = {p. \<exists>i \<in> s. map_of (productos_por_id self) i = Some p}"
    using buscar_exacto[OF c m] by blast
  have e: "\<forall>p \<in> set ps. normaliza (nombre p) = q"
    using s coherente_en_idx[OF c m] assms(3) by auto
  have ne: "s \<noteq> {}" using c m by (rule coherente_no_vacio)
  show ?thesis using b l s e ne ids by simp
qed

theorem busqueda_por_niveles_witness:
  "store_ok tabla_vacia \<and>
   buscar_por_nombre ''pen'' (tras [Anadir ''Pen'' 1 1, Anadir ''Pencil'' 2 2] tabla_vacia)
     = Inr [\<lparr>id' = Some 1, nombre = ''Pen'', cantidad = 1, precio = 1\<rparr>] \<and>
   buscar_por_nombre ''enc'' (tras [Anadir ''Pen'' 1 1, Anadir ''Pencil'' 2 2] tabla_vacia)
     = Inr (filter (\<lambda>p. contiene (normaliza ''enc'') (normaliza (nombre p)))
         (map snd (productos_por_id (tras [Anadir ''Pen'' 1 1, Anadir ''Pencil'' 2 2] tabla_vacia))))"
proof -
  let ?self = "tras [Anadir ''Pen'' 1 1, Anadir ''Pencil'' 2 2] tabla_vacia"
  have h: "store_ok tabla_vacia" by (simp add: store_ok_def tabla_vacia_def)
  have i1: "(case map_of (nombre_idx ?self) (normaliza ''pen'') of None \<Rightarrow> {} | Some s \<Rightarrow> s) = {1}"
    by code_simp
  have i2: "(case map_of (nombre_idx ?self) (normaliza ''enc'') of None \<Rightarrow> {} | Some s \<Rightarrow> s) = {}"
    by code_simp
  have m: "map_of (productos_por_id ?self) 1 = Some \<lparr>id' = Some 1, nombre = ''Pen'', cantidad = 1, precio = 1\<rparr>"
    by code_simp
  from busqueda_por_niveles[OF h refl refl i1[symmetric]]
  obtain ps where b: "buscar_por_nombre ''pen'' ?self = Inr ps" and l: "length ps = 1"
    and s: "set ps = {p. map_of (productos_por_id ?self) 1 = Some p}"
    by auto
  from s m have "set ps = {\<lparr>id' = Some 1, nombre = ''Pen'', cantidad = 1, precio = 1\<rparr>}" by simp
  with l have "ps = [\<lparr>id' = Some 1, nombre = ''Pen'', cantidad = 1, precio = 1\<rparr>]"
    by (cases ps) auto
  with b have a: "buscar_por_nombre ''pen'' ?self = Inr [\<lparr>id' = Some 1, nombre = ''Pen'', cantidad = 1, precio = 1\<rparr>]"
    by simp
  from busqueda_por_niveles[OF h refl refl i2[symmetric]]
  have c: "buscar_por_nombre ''enc'' ?self
     = Inr (filter (\<lambda>p. contiene (normaliza ''enc'') (normaliza (nombre p))) (map snd (productos_por_id ?self)))"
    by simp
  show ?thesis using h a c by blast
qed

text \<open>
  \<^bold>\<open>C10\<close> (blank query). In every reached state in which no stored name normalises to the
  empty string, a query made of whitespace only (the empty query included) returns every
  object of \<open>_productos_por_id\<close>.
\<close>

theorem consulta_en_blanco:
  assumes "store_ok db" and "self = tras ops db"
    and "\<forall>c \<in> set consulta. isspace c"
    and "\<forall>(i, p) \<in> set (productos_por_id self). normaliza (nombre p) \<noteq> []"
  shows "buscar_por_nombre consulta self = Inr (map snd (productos_por_id self))"
proof -
  have c: "coherente self" using tras_ok[OF assms(1)] assms(2) by simp
  have q: "normaliza consulta = []" using assms(3) by (simp add: normaliza_def strip_blanco lower_def)
  have "\<forall>i p. map_of (productos_por_id self) i = Some p \<longrightarrow> normaliza (nombre p) \<noteq> []"
    using assms(4) by (auto dest: map_of_SomeD)
  then have "map_of (nombre_idx self) (normaliza consulta) = None"
    unfolding q using coherente_None[OF c, of "[]"] by simp
  then show ?thesis using buscar_parcial[of self consulta] by (simp add: q contiene_Nil)
qed

theorem consulta_en_blanco_witness:
  "store_ok tabla_vacia \<and>
   list_all isspace '' '' \<and>
   buscar_por_nombre '' '' (tras [Anadir ''Pen'' 1 1, Anadir ''Pencil'' 2 2] tabla_vacia)
     = Inr (map snd (productos_por_id (tras [Anadir ''Pen'' 1 1, Anadir ''Pencil'' 2 2] tabla_vacia)))"
proof -
  let ?self = "tras [Anadir ''Pen'' 1 1, Anadir ''Pencil'' 2 2] tabla_vacia"
  have h: "store_ok tabla_vacia" by (simp add: store_ok_def tabla_vacia_def)
  have w: "\<forall>c \<in> set '' ''. isspace c" by code_simp
  have n: "\<forall>(i, p) \<in> set (productos_por_id ?self). normaliza (nombre p) \<noteq> []" by code_simp
  show ?thesis using h w consulta_en_blanco[OF h refl w n] by (simp add: list_all_iff)
qed

subsection \<open>The name index\<close>

lemma sin_vacios_cargar:
  "sin_vacios (nombre_idx self) \<Longrightarrow>
   sin_vacios (nombre_idx (fold (\<lambda>(i, n, c, pr). indexar \<lparr>id' = Some i, nombre = n, cantidad = c, precio = pr\<rparr>) rs self))"
proof (induction rs arbitrary: self)
  case Nil then show ?case by simp
next
  case (Cons r rs)
  obtain i n c pr where r: "r = (i, n, c, pr)" by (cases r) auto
  show ?case unfolding r using Cons.IH[OF sin_vacios_indexar[OF Cons.prems]] by simp
qed

lemma sin_vacios_anadir:
  "sin_vacios (nombre_idx self) \<Longrightarrow> sin_vacios (nombre_idx (snd (anadir_producto nom cant prec self)))"
  using sin_vacios_indexar[of "self\<lparr>conn := db\<rparr>" for db]
  by (auto simp: anadir_producto_def Let_def split: sum.splits)

lemma sin_vacios_eliminar:
  "sin_vacios (nombre_idx self) \<Longrightarrow> sin_vacios (nombre_idx (snd (eliminar_producto i self)))"
  using sin_vacios_desindexar[of "self\<lparr>conn := db\<rparr>" for db]
  by (auto simp: eliminar_producto_def split: sum.splits option.splits)

lemma sin_vacios_cantidad:
  "sin_vacios (nombre_idx self) \<Longrightarrow> sin_vacios (nombre_idx (snd (actualizar_cantidad i cant self)))"
  by (auto simp: actualizar_cantidad_def split: sum.splits option.splits)

lemma sin_vacios_precio:
  "sin_vacios (nombre_idx self) \<Longrightarrow> sin_vacios (nombre_idx (snd (actualizar_precio i prec self)))"
  by (auto simp: actualizar_precio_def split: sum.splits option.splits)

lemma sin_vacios_nombre:
  "sin_vacios (nombre_idx self) \<Longrightarrow> sin_vacios (nombre_idx (snd (actualizar_nombre i nom self)))"
  using sin_vacios_reindexar[of "self\<lparr>conn := db, productos_por_id := m\<rparr>" for db m]
  by (auto simp: actualizar_nombre_def Let_def split: sum.splits option.splits)

lemma sin_vacios_ejecutar:
  "sin_vacios (nombre_idx self) \<Longrightarrow> sin_vacios (nombre_idx (ejecutar op self))"
  by (cases op)
    (simp_all add: sin_vacios_anadir sin_vacios_eliminar sin_vacios_cantidad sin_vacios_precio
       sin_vacios_nombre)

lemma sin_vacios_fold:
  "sin_vacios (nombre_idx self) \<Longrightarrow> sin_vacios (nombre_idx (fold ejecutar ops self))"
  by (induction ops arbitrary: self) (simp_all add: sin_vacios_ejecutar)

lemma sin_vacios_cargar_desde_db: "sin_vacios (nombre_idx (cargar_desde_db self))"
  unfolding cargar_desde_db_def by (rule sin_vacios_cargar) (simp add: sin_vacios_def)

text \<open>
  \<^bold>\<open>C6\<close> (no empty name-sets). \<open>_indexar\<close>, \<open>_desindexar\<close> and \<open>_reindexar_nombre\<close>, on
  any object and any product, and every mutating call keep the property that no entry of
  \<open>_nombre_idx\<close> holds an empty set; \<open>_cargar_desde_db\<close> establishes it from any state, and
  so it holds in every state reached from any table.
\<close>

theorem sin_conjuntos_vacios:
  "(sin_vacios (nombre_idx self) \<longrightarrow> sin_vacios (nombre_idx (indexar p self))) \<and>
   (sin_vacios (nombre_idx self) \<longrightarrow> sin_vacios (nombre_idx (desindexar p self))) \<and>
   (sin_vacios (nombre_idx self) \<longrightarrow> sin_vacios (nombre_idx (reindexar_nombre p nombre_anterior self))) \<and>
   sin_vacios (nombre_idx (cargar_desde_db self)) \<and>
   (sin_vacios (nombre_idx self) \<longrightarrow> sin_vacios (nombre_idx (ejecutar op self))) \<and>
   sin_vacios (nombre_idx (tras ops db))"
proof -
  have "sin_vacios (nombre_idx (tras ops db))"
    unfolding tras_def Inventario_init_def by (rule sin_vacios_fold) (rule sin_vacios_cargar_desde_db)
  then show ?thesis
    using sin_vacios_indexar sin_vacios_desindexar sin_vacios_reindexar sin_vacios_cargar_desde_db
      sin_vacios_ejecutar by blast
qed

theorem sin_conjuntos_vacios_witness:
  "sin_vacios (nombre_idx (tras [Anadir ''Pen'' 1 1, Anadir '' pen'' 2 2] tabla_vacia)) \<and>
   sin_vacios (nombre_idx (desindexar \<lparr>id' = Some 1, nombre = ''Pen'', cantidad = 1, precio = 1\<rparr>
      (tras [Anadir ''Pen'' 1 1, Anadir '' pen'' 2 2] tabla_vacia))) \<and>
   sin_vacios (nombre_idx (ejecutar (Eliminar 2)
      (tras [Anadir ''Pen'' 1 1, Anadir '' pen'' 2 2] tabla_vacia)))"
proof -
  let ?self = "tras [Anadir ''Pen'' 1 1, Anadir '' pen'' 2 2] tabla_vacia"
  have h: "sin_vacios (nombre_idx ?self)" by code_simp
  show ?thesis
    using h sin_conjuntos_vacios[of ?self "\<lparr>id' = Some 1, nombre = ''Pen'', cantidad = 1, precio = 1\<rparr>"
        "''''" "Eliminar 2" "[]" tabla_vacia]
    by blast
qed

text \<open>
  \<^bold>\<open>C9\<close> (cross-index consistency). In every state reached from a table by the mutating
  calls, both dictionaries have unique keys; every id in the set under a key \<open>k\<close> of
  \<open>_nombre_idx\<close> is a key of \<open>_productos_por_id\<close> whose object has normalised name \<open>k\<close>;
  and every id of \<open>_productos_por_id\<close> is in the set under \<open>k\<close> exactly when \<open>k\<close> is the
  normalisation of its object's name.
\<close>

theorem coherencia_indices:
  assumes "store_ok db" and "self = tras ops db"
  shows "distinct (map fst (productos_por_id self)) \<and> distinct (map fst (nombre_idx self)) \<and>
         (\<forall>k s i. map_of (nombre_idx self) k = Some s \<and> i \<in> s \<longrightarrow>
              (\<exists>p. map_of (productos_por_id self) i = Some p \<and> normaliza (nombre p) = k)) \<and>
         (\<forall>i p k. map_of (productos_por_id self) i = Some p \<longrightarrow>
              (\<exists>s. map_of (nombre_idx self) k = Some s \<and> i \<in> s) = (k = normaliza (nombre p)))"
proof -
  have c: "coherente self" using tras_ok[OF assms(1)] assms(2) by simp
  have e: "\<And>k i. en_idx (nombre_idx self) k i = (\<exists>s. map_of (nombre_idx self) k = Some s \<and> i \<in> s)"
    by (auto simp: en_idx_def split: option.splits)
  have a: "\<And>k i. (\<exists>s. map_of (nombre_idx self) k = Some s \<and> i \<in> s) =
             (\<exists>p. map_of (productos_por_id self) i = Some p \<and> normaliza (nombre p) = k)"
    using c unfolding coherente_def e[symmetric] by blast
  have 1: "\<forall>k s i. map_of (nombre_idx self) k = Some s \<and> i \<in> s \<longrightarrow>
              (\<exists>p. map_of (productos_por_id self) i = Some p \<and> normaliza (nombre p) = k)"
    using a by blast
  have 2: "\<forall>i p k. map_of (productos_por_id self) i = Some p \<longrightarrow>
              (\<exists>s. map_of (nombre_idx self) k = Some s \<and> i \<in> s) = (k = normaliza (nombre p))"
    unfolding a by auto
  show ?thesis using c 1 2 unfolding coherente_def by blast
qed

theorem coherencia_indices_witness:
  "store_ok tabla_vacia \<and>
   map_of (nombre_idx (tras [Anadir ''Pen'' 1 1, ActualizarNombre 1 ''Ink''] tabla_vacia)) ''ink'' = Some {1} \<and>
   (\<exists>p. map_of (productos_por_id (tras [Anadir ''Pen'' 1 1, ActualizarNombre 1 ''Ink''] tabla_vacia)) 1 = Some p
        \<and> normaliza (nombre p) = ''ink'') \<and>
   (\<exists>s. map_of (nombre_idx (tras [Anadir ''Pen'' 1 1, ActualizarNombre 1 ''Ink''] tabla_vacia)) ''pen'' = Some s
        \<and> 1 \<in> s) = False"
proof -
  let ?self = "tras [Anadir ''Pen'' 1 1, ActualizarNombre 1 ''Ink''] tabla_vacia"
  have h: "store_ok tabla_vacia" by (simp add: store_ok_def tabla_vacia_def)
  have m: "map_of (nombre_idx ?self) ''ink'' = Some {1}" by code_simp
  note t = coherencia_indices[OF h refl, of "[Anadir ''Pen'' 1 1, ActualizarNombre 1 ''Ink'']"]
  from t m have e: "\<exists>p. map_of (productos_por_id ?self) 1 = Some p \<and> normaliza (nombre p) = ''ink''"
    by blast
  then obtain p where p: "map_of (productos_por_id ?self) 1 = Some p" and n: "normaliza (nombre p) = ''ink''"
    by blast
  from t p have "(\<exists>s. map_of (nombre_idx ?self) ''pen'' = Some s \<and> 1 \<in> s) = (''pen'' = normaliza (nombre p))"
    by blast
  then have f: "(\<exists>s. map_of (nombre_idx ?self) ''pen'' = Some s \<and> 1 \<in> s) = False"
    unfolding n by simp
  show ?thesis using h m e f by blast
qed

subsection \<open>Deletion\<close>

lemma eliminar_res:
  assumes "coherente self" and "sincronizado self" and "map_of (productos_por_id self) i = Some p"
  shows "eliminar_producto i self =
     (Inr True,
      self\<lparr>conn := (conn self)\<lparr>filas := AList.delete i (filas (conn self))\<rparr>,
           productos_por_id := AList.delete i (productos_por_id self),
           nombre_idx := descartar (normaliza (nombre p)) i (nombre_idx self)\<rparr>)"
proof -
  have idp: "id' p = Some i" using assms(1,3) by (simp add: coherente_def)
  have int: "sqlite_integer i" using assms(2,3) by (rule sinc_integer)
  show ?thesis using assms(3) idp int
    by (simp add: eliminar_producto_def sql_delete_def desindexar_def)
qed

text \<open>
  \<^bold>\<open>C7\<close> (\<open>eliminar_producto\<close>). In any state, on an id that is not a key of
  \<open>_productos_por_id\<close> the call returns \<open>False\<close> and the object, table included, is unchanged.
  In every state reached from a table, on an id that is a key the call returns \<open>True\<close>; the
  row of that id is gone from the table and the other rows are untouched; the key is gone
  from \<open>_productos_por_id\<close>; the id has been discarded from the set of its name, and no set
  of \<open>_nombre_idx\<close> holds it.
\<close>

theorem eliminar_ausente_presente:
  "(map_of (productos_por_id self) i = None \<longrightarrow> eliminar_producto i self = (Inr False, self)) \<and>
   (store_ok db \<longrightarrow>
      (\<forall>p. map_of (productos_por_id (tras ops db)) i = Some p \<longrightarrow>
         (\<exists>self'. eliminar_producto i (tras ops db) = (Inr True, self') \<and>
            filas (conn self') = AList.delete i (filas (conn (tras ops db))) \<and>
            i \<notin> fst ` set (filas (conn self')) \<and>
            productos_por_id self' = AList.delete i (productos_por_id (tras ops db)) \<and>
            map_of (productos_por_id self') i = None \<and>
            nombre_idx self' = descartar (normaliza (nombre p)) i (nombre_idx (tras ops db)) \<and>
            (\<forall>k s. map_of (nombre_idx self') k = Some s \<longrightarrow> i \<notin> s))))"
proof (intro conjI impI allI)
  assume "map_of (productos_por_id self) i = None"
  then show "eliminar_producto i self = (Inr False, self)" by (simp add: eliminar_producto_def)
next
  fix p
  assume db: "store_ok db" and m: "map_of (productos_por_id (tras ops db)) i = Some p"
  let ?self = "tras ops db"
  have c: "coherente ?self" and s: "sincronizado ?self" using tras_ok[OF db] by simp_all
  define self' where "self' = snd (eliminar_producto i ?self)"
  note res = eliminar_res[OF c s m]
  have r: "eliminar_producto i ?self = (Inr True, self')" unfolding self'_def res by simp
  have c': "coherente self'" unfolding self'_def using eliminar_ok[OF c s] by simp
  have f: "filas (conn self') = AList.delete i (filas (conn ?self))" unfolding self'_def res by simp
  have b: "productos_por_id self' = AList.delete i (productos_por_id ?self)" unfolding self'_def res by simp
  have x: "nombre_idx self' = descartar (normaliza (nombre p)) i (nombre_idx ?self)"
    unfolding self'_def res by simp
  have n: "map_of (productos_por_id self') i = None" unfolding b by (simp add: delete_conv')
  have e: "\<forall>k s. map_of (nombre_idx self') k = Some s \<longrightarrow> i \<notin> s"
  proof (intro allI impI)
    fix k s assume "map_of (nombre_idx self') k = Some s"
    then show "i \<notin> s" using coherente_en_idx[OF c', of k s i] n by simp
  qed
  have g: "i \<notin> fst ` set (filas (conn self'))" unfolding f by (rule delete_notin_dom)
  show "\<exists>self'. eliminar_producto i ?self = (Inr True, self') \<and>
            filas (conn self') = AList.delete i (filas (conn ?self)) \<and>
            i \<notin> fst ` set (filas (conn self')) \<and>
            productos_por_id self' = AList.delete i (productos_por_id ?self) \<and>
            map_of (productos_por_id self') i = None \<and>
            nombre_idx self' = descartar (normaliza (nombre p)) i (nombre_idx ?self) \<and>
            (\<forall>k s. map_of (nombre_idx self') k = Some s \<longrightarrow> i \<notin> s)"
    using r f g b n x e by blast
qed

theorem eliminar_ausente_presente_witness:
  "map_of (productos_por_id (tras [Anadir ''Pen'' 1 1] tabla_vacia)) 5 = None \<and>
   eliminar_producto 5 (tras [Anadir ''Pen'' 1 1] tabla_vacia)
     = (Inr False, tras [Anadir ''Pen'' 1 1] tabla_vacia) \<and>
   store_ok tabla_vacia \<and>
   map_of (productos_por_id (tras [Anadir ''Pen'' 1 1] tabla_vacia)) 1
     = Some \<lparr>id' = Some 1, nombre = ''Pen'', cantidad = 1, precio = 1\<rparr> \<and>
   fst (eliminar_producto 1 (tras [Anadir ''Pen'' 1 1] tabla_vacia)) = Inr True \<and>
   map_of (productos_por_id (snd (eliminar_producto 1 (tras [Anadir ''Pen'' 1 1] tabla_vacia)))) 1 = None"
proof -
  let ?self = "tras [Anadir ''Pen'' 1 1] tabla_vacia"
  have a: "map_of (productos_por_id ?self) 5 = None" by code_simp
  have h: "store_ok tabla_vacia" by (simp add: store_ok_def tabla_vacia_def)
  have m: "map_of (productos_por_id ?self) 1 = Some \<lparr>id' = Some 1, nombre = ''Pen'', cantidad = 1, precio = 1\<rparr>"
    by code_simp
  have 1: "eliminar_producto 5 ?self = (Inr False, ?self)"
    using a eliminar_ausente_presente[of ?self 5] by blast
  obtain self' where r: "eliminar_producto 1 ?self = (Inr True, self')"
    and n: "map_of (productos_por_id self') 1 = None"
    using h m eliminar_ausente_presente[of ?self 1 tabla_vacia "[Anadir ''Pen'' 1 1]"] by blast
  show ?thesis using a 1 h m r n by simp
qed

subsection \<open>Listing\<close>

lemma coherente_id:
  assumes "coherente self" and "p \<in> set (map snd (productos_por_id self))"
  shows "id' p = Some (clave_orden p)"
proof -
  from assms(2) obtain i where ip: "(i, p) \<in> set (productos_por_id self)" by auto
  have "distinct (map fst (productos_por_id self))" using assms(1) by (simp add: coherente_def)
  then have "map_of (productos_por_id self) i = Some p" using ip by simp
  then have "id' p = Some i" using assms(1) by (simp add: coherente_def)
  then show ?thesis by (simp add: clave_orden_def)
qed

lemma orden_con_ausentes:
  assumes "\<forall>p \<in> set xs. case id' p of None \<Rightarrow> True | Some i \<Rightarrow> 0 < i"
  shows "sorted (map id' (sort_key clave_orden xs))"
proof -
  let ?ys = "sort_key clave_orden xs"
  have s: "sorted_wrt (\<lambda>p q. clave_orden p \<le> clave_orden q) ?ys"
    using sorted_sort_key[of clave_orden xs] by (simp only: sorted_map)
  have "sorted_wrt (\<lambda>p q. id' p \<le> id' q) ?ys"
  proof (rule sorted_wrt_mono_rel[OF _ s])
    fix p q assume p: "p \<in> set ?ys" and q: "q \<in> set ?ys" and le: "clave_orden p \<le> clave_orden q"
    have pp: "case id' p of None \<Rightarrow> True | Some i \<Rightarrow> 0 < i" using assms p by (simp only: set_sort)
    have qq: "case id' q of None \<Rightarrow> True | Some i \<Rightarrow> 0 < i" using assms q by (simp only: set_sort)
    show "id' p \<le> id' q"
      using pp qq le by (cases "id' p"; cases "id' q") (auto simp: clave_orden_def)
  qed
  then show ?thesis by (simp only: sorted_map)
qed

lemma sorted_map_Some: "sorted xs \<Longrightarrow> sorted (map Some (xs :: int list))"
  by (simp add: sorted_map)

text \<open>
  \<^bold>\<open>C8\<close> (\<open>listar_todos\<close>). In every state reached from a table, whatever the order of
  insertion, \<open>listar_todos\<close> returns the objects of \<open>_productos_por_id\<close>, each once, in
  ascending order of id, without repeated ids. The order on ids is the one of
  \<open>int option\<close>, in which \<open>None\<close> is the least element; no object of a reached state has
  the id \<open>None\<close>. For the key \<open>p.id or 0\<close> itself: in any state, reached or not, whose
  present ids are positive (as \<open>AUTOINCREMENT\<close> assigns them), the list is in that same
  order, the objects without id first.
\<close>

theorem listar_ordenado:
  assumes "store_ok db" and "self = tras ops db"
  shows "mset (listar_todos self) = mset (map snd (productos_por_id self)) \<and>
         sorted (map id' (listar_todos self)) \<and>
         distinct (map id' (listar_todos self)) \<and>
         None \<notin> set (map id' (listar_todos self)) \<and>
         ((\<forall>p \<in> set (map snd (productos_por_id otro)). case id' p of None \<Rightarrow> True | Some i \<Rightarrow> 0 < i)
            \<longrightarrow> sorted (map id' (listar_todos otro)))"
proof -
  have c: "coherente self" using tras_ok[OF assms(1)] assms(2) by simp
  have o: "(\<forall>p \<in> set (map snd (productos_por_id otro)). case id' p of None \<Rightarrow> True | Some i \<Rightarrow> 0 < i)
            \<longrightarrow> sorted (map id' (listar_todos otro))"
    unfolding listar_todos_def using orden_con_ausentes by blast
  let ?xs = "map snd (productos_por_id self)"
  have m: "mset (listar_todos self) = mset ?xs" by (simp only: listar_todos_def mset_sort)
  have k: "\<And>p. p \<in> set ?xs \<Longrightarrow> id' p = Some (clave_orden p)" using coherente_id[OF c] by blast
  have st: "set (listar_todos self) = set ?xs" by (simp only: listar_todos_def set_sort)
  have "map id' (listar_todos self) = map (\<lambda>p. Some (clave_orden p)) (listar_todos self)"
    by (rule map_cong[OF refl]) (use k st in blast)
  then have e: "map id' (listar_todos self) = map Some (map clave_orden (listar_todos self))"
    by (simp only: map_map comp_def)
  have "sorted (map clave_orden (listar_todos self))" unfolding listar_todos_def by (rule sorted_sort_key)
  then have s: "sorted (map id' (listar_todos self))" unfolding e by (rule sorted_map_Some)
  have n: "None \<notin> set (map id' (listar_todos self))" unfolding e by auto
  have eq: "map id' ?xs = map Some (map fst (productos_por_id self))"
  proof -
    have "\<And>i p. (i, p) \<in> set (productos_por_id self) \<Longrightarrow> id' p = Some i"
    proof -
      fix i p assume ip: "(i, p) \<in> set (productos_por_id self)"
      have "distinct (map fst (productos_por_id self))" using c by (simp add: coherente_def)
      then have "map_of (productos_por_id self) i = Some p" using ip by simp
      then show "id' p = Some i" using c by (simp add: coherente_def)
    qed
    then show ?thesis by auto
  qed
  have dk: "distinct (map fst (productos_por_id self))" using c by (simp add: coherente_def)
  have dS: "distinct (map Some ys)" if "distinct ys" for ys :: "int list"
    using that by (simp add: distinct_map)
  have dx: "distinct (map id' ?xs)" unfolding eq using dk by (rule dS)
  have "mset (map id' (listar_todos self)) = mset (map id' ?xs)"
    unfolding listar_todos_def by (simp only: mset_map mset_sort)
  then have d: "distinct (map id' (listar_todos self))"
    using dx mset_eq_imp_distinct_iff by blast
  show ?thesis using m s d n o by blast
qed

theorem listar_ordenado_witness:
  "store_ok \<lparr>filas = [(9, (''Pen'', 3, 2)), (4, (''Ink'', 1, 1))], seq = 9\<rparr> \<and>
   map id' (map snd (productos_por_id (tras [Anadir ''Cap'' 1 1]
       \<lparr>filas = [(9, (''Pen'', 3, 2)), (4, (''Ink'', 1, 1))], seq = 9\<rparr>))) = [Some 9, Some 4, Some 10] \<and>
   map id' (listar_todos (tras [Anadir ''Cap'' 1 1]
       \<lparr>filas = [(9, (''Pen'', 3, 2)), (4, (''Ink'', 1, 1))], seq = 9\<rparr>)) = [Some 4, Some 9, Some 10] \<and>
   sorted (map id' (listar_todos (tras [Anadir ''Cap'' 1 1]
       \<lparr>filas = [(9, (''Pen'', 3, 2)), (4, (''Ink'', 1, 1))], seq = 9\<rparr>)))"
proof -
  let ?db = "\<lparr>filas = [(9, (''Pen'', 3, 2)), (4, (''Ink'', 1, 1))], seq = 9\<rparr>"
  have h: "store_ok ?db" by (simp add: store_ok_def sqlite_integer_def)
  have a: "map id' (map snd (productos_por_id (tras [Anadir ''Cap'' 1 1] ?db))) = [Some 9, Some 4, Some 10]"
    by code_simp
  have b: "map id' (listar_todos (tras [Anadir ''Cap'' 1 1] ?db)) = [Some 4, Some 9, Some 10]"
    by code_simp
  have s: "sorted (map id' (listar_todos (tras [Anadir ''Cap'' 1 1] ?db)))"
    by (rule listar_ordenado[OF h refl, THEN conjunct2, THEN conjunct1])
  show ?thesis by (intro conjI) (rule h a b s)+
qed

subsection \<open>Renaming\<close>

text \<open>
  \<^bold>\<open>C4\<close> (rename visibility) does not hold as stated. After \<open>Pen\<close>, the only product, is
  renamed \<open>Pencil\<close>, no name-set is keyed by \<open>pen\<close>, so the search for \<open>Pen\<close> falls back to
  the substring scan, and \<open>pen\<close> occurs in \<open>pencil\<close>: the old name still finds the product.
\<close>

theorem renombrar_contraejemplo:
  "normaliza ''Pen'' \<noteq> normaliza ''Pencil'' \<and>
   obtener_por_id 1 (tras [Anadir ''Pen'' 1 1] tabla_vacia)
     = Some \<lparr>id' = Some 1, nombre = ''Pen'', cantidad = 1, precio = 1\<rparr> \<and>
   fst (actualizar_nombre 1 ''Pencil'' (tras [Anadir ''Pen'' 1 1] tabla_vacia)) = Inr True \<and>
   buscar_por_nombre ''Pen'' (snd (actualizar_nombre 1 ''Pencil'' (tras [Anadir ''Pen'' 1 1] tabla_vacia)))
     = Inr [\<lparr>id' = Some 1, nombre = ''Pencil'', cantidad = 1, precio = 1\<rparr>]"
  by code_simp

text \<open>
  \<^bold>\<open>C4\<close>, amended. In every state reached from a table, for a stored id whose name and
  the new name \<open>x\<close> normalise differently, \<open>actualizar_nombre\<close> returns \<open>True\<close>; afterwards the
  search for \<open>x\<close> includes the product of that id, and the search for the old name includes
  it exactly when the normalised old name occurs in the normalised new name and no other
  product has the normalised old name (the case in which the substring scan runs).
\<close>

theorem renombrar_visibilidad:
  assumes "store_ok db" and "self = tras ops db"
    and "map_of (productos_por_id self) i = Some p"
    and "normaliza (nombre p) \<noteq> normaliza x"
    and "self' = snd (actualizar_nombre i x self)"
  shows "fst (actualizar_nombre i x self) = Inr True \<and>
         (\<exists>ps. buscar_por_nombre x self' = Inr ps \<and> Some i \<in> id' ` set ps) \<and>
         (\<exists>ps. buscar_por_nombre (nombre p) self' = Inr ps \<and>
            (Some i \<in> id' ` set ps) =
              (contiene (normaliza (nombre p)) (normaliza x) \<and>
               (\<forall>j r. map_of (productos_por_id self) j = Some r \<and> j \<noteq> i \<longrightarrow>
                    normaliza (nombre r) \<noteq> normaliza (nombre p))))"
proof -
  have c: "coherente self" and s: "sincronizado self" using tras_ok[OF assms(1)] assms(2) by simp_all
  have idp: "id' p = Some i" using c assms(3) by (simp add: coherente_def)
  have int: "sqlite_integer i" using s assms(3) by (rule sinc_integer)
  note res = nombre_res[OF assms(3) idp int, of x]
  let ?p = "p\<lparr>nombre := strip x\<rparr>"
  have r: "fst (actualizar_nombre i x self) = Inr True" unfolding res by simp
  have c': "coherente self'" unfolding assms(5) using nombre_ok[OF c s] by simp
  have b: "productos_por_id self' = AList.update i ?p (productos_por_id self)"
    unfolding assms(5) res by simp
  have m: "map_of (productos_por_id self') = (map_of (productos_por_id self))(i \<mapsto> ?p)"
    unfolding b by (rule update_conv')
  have mi: "map_of (productos_por_id self') i = Some ?p" unfolding m by simp
  have np: "normaliza (nombre ?p) = normaliza x" by (simp add: normaliza_strip)
  have ids: "\<And>j r. map_of (productos_por_id self') j = Some r \<Longrightarrow> id' r = Some j"
    using c' by (simp add: coherente_def)
  \<comment> \<open>the new name finds it\<close>
  have "map_of (nombre_idx self') (normaliza x) \<noteq> None"
    using coherente_None[OF c', of "normaliza x"] mi np by blast
  then obtain sx where sx: "map_of (nombre_idx self') (normaliza x) = Some sx" by blast
  have "i \<in> sx" using coherente_en_idx[OF c' sx, of i] mi np by blast
  moreover obtain ps where px: "buscar_por_nombre x self' = Inr ps"
      and "set ps = {q. \<exists>j \<in> sx. map_of (productos_por_id self') j = Some q}"
    using buscar_exacto[OF c' sx] by blast
  ultimately have "?p \<in> set ps" using mi by blast
  then have "Some i \<in> id' ` set ps" using idp by force
  with px have A: "\<exists>ps. buscar_por_nombre x self' = Inr ps \<and> Some i \<in> id' ` set ps" by blast
  \<comment> \<open>the old name\<close>
  let ?k = "normaliza (nombre p)"
  let ?otros = "\<forall>j r. map_of (productos_por_id self) j = Some r \<and> j \<noteq> i \<longrightarrow> normaliza (nombre r) \<noteq> ?k"
  have nk: "(map_of (nombre_idx self') ?k = None) = ?otros"
    unfolding coherente_None[OF c'] m using assms(4) np by auto
  have B: "\<exists>ps. buscar_por_nombre (nombre p) self' = Inr ps \<and>
            (Some i \<in> id' ` set ps) = (contiene ?k (normaliza x) \<and> ?otros)"
  proof (cases "map_of (nombre_idx self') ?k")
    case None
    let ?ps = "filter (\<lambda>q. contiene ?k (normaliza (nombre q))) (map snd (productos_por_id self'))"
    have bp: "buscar_por_nombre (nombre p) self' = Inr ?ps" using None by (rule buscar_parcial)
    have "(Some i \<in> id' ` set ?ps) = contiene ?k (normaliza x)"
    proof
      assume "Some i \<in> id' ` set ?ps"
      then obtain q where q: "q \<in> set ?ps" and iq: "id' q = Some i" by force
      from q obtain j where jq: "(j, q) \<in> set (productos_por_id self')" and cq: "contiene ?k (normaliza (nombre q))"
        by auto
      have "distinct (map fst (productos_por_id self'))" using c' by (simp add: coherente_def)
      then have mj: "map_of (productos_por_id self') j = Some q" using jq by simp
      then have "j = i" using ids[OF mj] iq by simp
      then have "q = ?p" using mj mi by simp
      then show "contiene ?k (normaliza x)" using cq np by simp
    next
      assume cq: "contiene ?k (normaliza x)"
      have "(i, ?p) \<in> set (productos_por_id self')" using mi by (rule map_of_SomeD)
      then have "?p \<in> set (map snd (productos_por_id self'))" by force
      then have "?p \<in> set ?ps" using cq np by simp
      then show "Some i \<in> id' ` set ?ps" using idp by force
    qed
    then show ?thesis using bp None nk by auto
  next
    case (Some sk)
    obtain ps where bp: "buscar_por_nombre (nombre p) self' = Inr ps"
      and sp: "set ps = {q. \<exists>j \<in> sk. map_of (productos_por_id self') j = Some q}"
      using buscar_exacto[OF c' Some] by blast
    have "i \<notin> sk" using coherente_en_idx[OF c' Some, of i] mi np assms(4) by auto
    then have "Some i \<notin> id' ` set ps" using sp ids by force
    moreover have "\<not> ?otros" using nk Some by simp
    ultimately show ?thesis using bp by blast
  qed
  show ?thesis using r A B by blast
qed

theorem renombrar_visibilidad_witness:
  "store_ok tabla_vacia \<and>
   map_of (productos_por_id (tras [Anadir ''Pen'' 1 1, Anadir ''Ink'' 2 2] tabla_vacia)) 1
     = Some \<lparr>id' = Some 1, nombre = ''Pen'', cantidad = 1, precio = 1\<rparr> \<and>
   normaliza ''Pen'' \<noteq> normaliza ''Cap'' \<and>
   fst (actualizar_nombre 1 ''Cap'' (tras [Anadir ''Pen'' 1 1, Anadir ''Ink'' 2 2] tabla_vacia)) = Inr True \<and>
   (\<exists>ps. buscar_por_nombre ''Cap''
           (snd (actualizar_nombre 1 ''Cap'' (tras [Anadir ''Pen'' 1 1, Anadir ''Ink'' 2 2] tabla_vacia)))
          = Inr ps \<and> Some 1 \<in> id' ` set ps) \<and>
   (\<exists>ps. buscar_por_nombre ''Pen''
           (snd (actualizar_nombre 1 ''Cap'' (tras [Anadir ''Pen'' 1 1, Anadir ''Ink'' 2 2] tabla_vacia)))
          = Inr ps \<and> Some 1 \<notin> id' ` set ps)"
proof -
  let ?self = "tras [Anadir ''Pen'' 1 1, Anadir ''Ink'' 2 2] tabla_vacia"
  let ?p = "\<lparr>id' = Some 1, nombre = ''Pen'', cantidad = 1, precio = 1\<rparr>"
  have h: "store_ok tabla_vacia" by (simp add: store_ok_def tabla_vacia_def)
  have m: "map_of (productos_por_id ?self) 1 = Some ?p" by code_simp
  have n: "normaliza ''Pen'' \<noteq> normaliza ''Cap''" by code_simp
  have n': "normaliza (nombre ?p) \<noteq> normaliza ''Cap''" using n by simp
  have k: "\<not> contiene (normaliza ''Pen'') (normaliza ''Cap'')" by code_simp
  note t = renombrar_visibilidad[OF h refl m n' refl]
  have a: "fst (actualizar_nombre 1 ''Cap'' ?self) = Inr True" using t by (elim conjE)
  have b: "\<exists>ps. buscar_por_nombre ''Cap'' (snd (actualizar_nombre 1 ''Cap'' ?self)) = Inr ps
              \<and> Some 1 \<in> id' ` set ps"
    using t by (elim conjE)
  have c: "\<exists>ps. buscar_por_nombre ''Pen'' (snd (actualizar_nombre 1 ''Cap'' ?self)) = Inr ps
              \<and> Some 1 \<notin> id' ` set ps"
    using t k by auto
  show ?thesis by (intro conjI) (rule h m n a b c)+
qed

subsection \<open>Names\<close>

lemma nombrados_update:
  "nombrados self \<Longrightarrow> nombre p \<noteq> [] \<Longrightarrow>
   productos_por_id s = AList.update i p (productos_por_id self) \<Longrightarrow> nombrados s"
  using set_update_subset[of i p "productos_por_id self"] by (auto simp: nombrados_def)

lemma nombrados_indexar: "nombrados self \<Longrightarrow> nombre p \<noteq> [] \<Longrightarrow> nombrados (indexar p self)"
proof (cases "id' p")
  case None then show "nombrados self \<Longrightarrow> nombrados (indexar p self)" by (simp add: indexar_sin_id)
next
  case (Some i)
  assume "nombrados self" and "nombre p \<noteq> []"
  then show "nombrados (indexar p self)"
    using set_update_subset[of i p "productos_por_id self"]
    by (auto simp: nombrados_def por_id_indexar[OF Some])
qed

lemma nombrados_desindexar: "nombrados self \<Longrightarrow> nombrados (desindexar p self)"
  using set_delete_subset[of _ "productos_por_id self"]
  by (cases "id' p") (auto simp: nombrados_def desindexar_def)

lemma nombrados_reindexar:
  "nombrados self \<Longrightarrow> nombre p \<noteq> [] \<Longrightarrow> nombrados (reindexar_nombre p ant self)"
proof (cases "id' p")
  case None then show "nombrados self \<Longrightarrow> nombrados (reindexar_nombre p ant self)"
    by (simp add: reindexar_nombre_def)
next
  case (Some i)
  assume a: "nombrados self" and b: "nombre p \<noteq> []"
  have "nombrados (self\<lparr>nombre_idx := descartar (normaliza ant) i (nombre_idx self)\<rparr>)"
    using a by (simp add: nombrados_def)
  then show "nombrados (reindexar_nombre p ant self)"
    using b Some by (simp add: reindexar_nombre_def nombrados_indexar)
qed

lemma nombrados_conn [simp]: "nombrados (self\<lparr>conn := db\<rparr>) = nombrados self"
  by (simp add: nombrados_def)

lemma nombrados_lookup:
  "nombrados self \<Longrightarrow> map_of (productos_por_id self) i = Some p \<Longrightarrow> nombre p \<noteq> []"
  by (auto simp: nombrados_def dest: map_of_SomeD)

lemma nombrados_ejecutar:
  assumes "nombrados self" and "\<not> nombra_vacio op"
  shows "nombrados (ejecutar op self)"
proof (cases op)
  case (Anadir nom cant prec)
  then have "strip nom \<noteq> []" using assms(2) by simp
  then show ?thesis using assms(1) Anadir
    by (auto simp: anadir_producto_def Let_def nombrados_indexar split: sum.splits)
next
  case (Eliminar i)
  then show ?thesis using assms(1)
    by (auto simp: eliminar_producto_def nombrados_desindexar split: sum.splits option.splits)
next
  case (ActualizarCantidad i cant)
  have "\<And>p db. map_of (productos_por_id self) i = Some p \<Longrightarrow>
      nombrados (self\<lparr>conn := db, productos_por_id := AList.update i (p\<lparr>cantidad := cant\<rparr>) (productos_por_id self)\<rparr>)"
  proof -
    fix p db assume "map_of (productos_por_id self) i = Some p"
    then have "nombre (p\<lparr>cantidad := cant\<rparr>) \<noteq> []" using nombrados_lookup[OF assms(1)] by simp
    then show "nombrados (self\<lparr>conn := db, productos_por_id := AList.update i (p\<lparr>cantidad := cant\<rparr>) (productos_por_id self)\<rparr>)"
      by (rule nombrados_update[OF assms(1)]) simp
  qed
  then show ?thesis using assms(1) ActualizarCantidad
    by (auto simp: actualizar_cantidad_def set_cantidad_def split: sum.splits option.splits if_splits)
next
  case (ActualizarPrecio i prec)
  have "\<And>p db. map_of (productos_por_id self) i = Some p \<Longrightarrow>
      nombrados (self\<lparr>conn := db, productos_por_id := AList.update i (p\<lparr>precio := prec\<rparr>) (productos_por_id self)\<rparr>)"
  proof -
    fix p db assume "map_of (productos_por_id self) i = Some p"
    then have "nombre (p\<lparr>precio := prec\<rparr>) \<noteq> []" using nombrados_lookup[OF assms(1)] by simp
    then show "nombrados (self\<lparr>conn := db, productos_por_id := AList.update i (p\<lparr>precio := prec\<rparr>) (productos_por_id self)\<rparr>)"
      by (rule nombrados_update[OF assms(1)]) simp
  qed
  then show ?thesis using assms(1) ActualizarPrecio
    by (auto simp: actualizar_precio_def set_precio_def split: sum.splits option.splits if_splits)
next
  case (ActualizarNombre i nom)
  then have n: "strip nom \<noteq> []" using assms(2) by simp
  show ?thesis
  proof (cases "map_of (productos_por_id self) i")
    case None then show ?thesis using assms(1) ActualizarNombre by (simp add: actualizar_nombre_def)
  next
    case (Some p)
    have "\<And>db. nombrados (self\<lparr>conn := db, productos_por_id := AList.update i (p\<lparr>nombre := strip nom\<rparr>) (productos_por_id self)\<rparr>)"
      by (rule nombrados_update[OF assms(1), where i = i and p = "p\<lparr>nombre := strip nom\<rparr>"]) (simp_all add: n)
    then have "\<And>db. nombrados (reindexar_nombre (p\<lparr>nombre := strip nom\<rparr>) (nombre p)
        (self\<lparr>conn := db, productos_por_id := AList.update i (p\<lparr>nombre := strip nom\<rparr>) (productos_por_id self)\<rparr>))"
      using n by (simp add: nombrados_reindexar)
    then show ?thesis using assms(1) ActualizarNombre Some
      by (auto simp: actualizar_nombre_def Let_def split: sum.splits)
  qed
qed

lemma nombrados_fold:
  "nombrados self \<Longrightarrow> \<forall>op \<in> set ops. \<not> nombra_vacio op \<Longrightarrow> nombrados (fold ejecutar ops self)"
  by (induction ops arbitrary: self) (simp_all add: nombrados_ejecutar)

lemma nombrados_cargar:
  "nombrados self \<Longrightarrow> \<forall>(i, n, c, pr) \<in> set rs. n \<noteq> [] \<Longrightarrow>
   nombrados (fold (\<lambda>(i, n, c, pr). indexar \<lparr>id' = Some i, nombre = n, cantidad = c, precio = pr\<rparr>) rs self)"
proof (induction rs arbitrary: self)
  case Nil then show ?case by simp
next
  case (Cons r rs)
  obtain i n c pr where r: "r = (i, n, c, pr)" by (cases r) auto
  have "n \<noteq> []" using Cons.prems(2) r by simp
  then have "nombrados (indexar \<lparr>id' = Some i, nombre = n, cantidad = c, precio = pr\<rparr> self)"
    using Cons.prems(1) by (simp add: nombrados_indexar)
  then show ?case unfolding r using Cons.IH Cons.prems(2) by simp
qed

text \<open>
  \<^bold>\<open>C5\<close> (non-empty names) does not hold as stated: neither \<open>anadir_producto\<close> nor
  \<open>actualizar_nombre\<close> checks the name. A name of blanks, or the empty name, is trimmed and
  stored, and the object is held in \<open>_productos_por_id\<close> with the empty name.
\<close>

theorem nombres_contraejemplo:
  "fst (anadir_producto ''  '' 1 1 (Inventario_init tabla_vacia))
     = Inr \<lparr>id' = Some 1, nombre = [], cantidad = 1, precio = 1\<rparr> \<and>
   obtener_por_id 1 (tras [Anadir ''  '' 1 1] tabla_vacia)
     = Some \<lparr>id' = Some 1, nombre = [], cantidad = 1, precio = 1\<rparr> \<and>
   fst (actualizar_nombre 1 [] (tras [Anadir ''Pen'' 1 1] tabla_vacia)) = Inr True \<and>
   obtener_por_id 1 (tras [Anadir ''Pen'' 1 1, ActualizarNombre 1 []] tabla_vacia)
     = Some \<lparr>id' = Some 1, nombre = [], cantidad = 1, precio = 1\<rparr>"
  by code_simp

text \<open>
  \<^bold>\<open>C5\<close>, amended. Non-empty names are kept, not enforced: when no row of the table loaded
  at start has an empty name and no call of the sequence passes \<open>anadir_producto\<close> or
  \<open>actualizar_nombre\<close> a name that is empty once trimmed, every object of
  \<open>_productos_por_id\<close> has a non-empty name.
\<close>

theorem nombres_no_vacios:
  assumes "\<forall>(i, n, c, pr) \<in> set (filas db). n \<noteq> []" and "\<forall>op \<in> set ops. \<not> nombra_vacio op"
  shows "\<forall>(i, p) \<in> set (productos_por_id (tras ops db)). nombre p \<noteq> []"
proof -
  have "nombrados (Inventario_init db)"
    unfolding Inventario_init_def cargar_desde_db_def
    by (rule nombrados_cargar) (use assms(1) in \<open>simp_all add: nombrados_def\<close>)
  then have "nombrados (tras ops db)" unfolding tras_def using assms(2) by (rule nombrados_fold)
  then show ?thesis by (simp add: nombrados_def)
qed

theorem nombres_no_vacios_witness:
  "list_all (\<lambda>(i, p). nombre p \<noteq> [])
     (productos_por_id (tras [Anadir '' Pen '' 1 1, ActualizarNombre 7 '' Red ink'', Eliminar 3]
        \<lparr>filas = [(7, (''Ink'', 3, 2))], seq = 7\<rparr>)) \<and>
   map (\<lambda>(i, p). nombre p)
     (productos_por_id (tras [Anadir '' Pen '' 1 1, ActualizarNombre 7 '' Red ink'', Eliminar 3]
        \<lparr>filas = [(7, (''Ink'', 3, 2))], seq = 7\<rparr>)) = [''Red ink'', ''Pen'']"
proof -
  let ?db = "\<lparr>filas = [(7, (''Ink'', 3, 2))], seq = 7\<rparr>"
  let ?ops = "[Anadir '' Pen '' 1 1, ActualizarNombre 7 '' Red ink'', Eliminar 3]"
  have a: "\<forall>(i, n, c, pr) \<in> set (filas ?db). n \<noteq> []" by simp
  have b: "\<forall>op \<in> set ?ops. \<not> nombra_vacio op" by code_simp
  have c: "map (\<lambda>(i, p). nombre p) (productos_por_id (tras ?ops ?db)) = [''Red ink'', ''Pen'']"
    by code_simp
  have d: "list_all (\<lambda>(i, p). nombre p \<noteq> []) (productos_por_id (tras ?ops ?db))"
    using nombres_no_vacios[OF a b] by (simp only: list_all_iff)
  show ?thesis by (intro conjI) (rule d c)+
qed

end
